theory Spec2Isabelle
  imports Complex_Main
begin

section \<open>Values obtained from JSON.parse\<close>

text \<open>
  The server is untyped: every field of an inbound message is whatever \<^verbatim>\<open>JSON.parse\<close>
  produced.  A number is an IEEE double, represented here by its exact value (the double
  \<^verbatim>\<open>-0\<close> is the value 0, which is what both the truthiness test and the key comparison of
  a JavaScript \<^verbatim>\<open>Map\<close> see); a literal too large for a double parses to an infinity.
  Arrays and objects are heap objects: a \<^verbatim>\<open>Map\<close> or \<^verbatim>\<open>Set\<close> compares them by identity, so
  each carries the address it was allocated at, and two parsed objects are the same key
  only if they are the same object.  \<open>JUndefined\<close> is the value of an absent property.
\<close>

datatype number = Finite rat | PlusInfinity | MinusInfinity

datatype jsval =
    JUndefined
  | JNull
  | JBool bool
  | JNum number
  | JStr string
  | JArr nat "jsval list"
  | JObj nat "(string \<times> jsval) list"

text \<open>JavaScript truthiness, as tested by \<^verbatim>\<open>if (x)\<close>, \<^verbatim>\<open>!x\<close> and \<^verbatim>\<open>x && y\<close>.\<close>

fun truthy :: "jsval \<Rightarrow> bool" where
  "truthy JUndefined = False"
| "truthy JNull = False"
| "truthy (JBool b) = b"
| "truthy (JNum n) = (n \<noteq> Finite 0)"
| "truthy (JStr s) = (s \<noteq> [])"
| "truthy (JArr a xs) = True"
| "truthy (JObj a fs) = True"

text \<open>
  Property access \<^verbatim>\<open>data.name\<close> on a value other than \<^verbatim>\<open>null\<close> and \<^verbatim>\<open>undefined\<close>, for the
  names the server reads (\<^verbatim>\<open>type\<close>, \<^verbatim>\<open>roomId\<close>, \<^verbatim>\<open>username\<close>, \<^verbatim>\<open>text\<close>): the own property of
  an object, and \<^verbatim>\<open>undefined\<close> otherwise, since no prototype defines these names.
\<close>

fun js_get :: "jsval \<Rightarrow> string \<Rightarrow> jsval" where
  "js_get (JObj a fs) name = (case map_of fs name of Some v \<Rightarrow> v | None \<Rightarrow> JUndefined)"
| "js_get v name = JUndefined"

text \<open>
  A template literal converts each interpolated value to a string.  For a parsed object
  that has an own property \<^verbatim>\<open>toString\<close> the conversion raises a TypeError (the property
  is not callable, and the inherited \<^verbatim>\<open>valueOf\<close> returns the object itself); an array
  converts its elements one by one (\<^verbatim>\<open>null\<close> elements as the empty string); every
  other value converts.
\<close>

fun tostring_throws :: "jsval \<Rightarrow> bool" where
  "tostring_throws (JObj a fs) = (''toString'' \<in> fst ` set fs)"
| "tostring_throws (JArr a xs) = (\<exists>x \<in> set xs. tostring_throws x)"
| "tostring_throws v = False"

text \<open>A template literal, kept symbolic: literal chunks and interpolated values.\<close>

datatype chunk = Lit string | Subst jsval

section \<open>Outbound envelopes\<close>

text \<open>
  One constructor per object literal the server serialises.  \<open>ErrorMessage\<close> carries the
  field \<^verbatim>\<open>message\<close>, \<open>ErrorMsg\<close> the field \<^verbatim>\<open>msg\<close>.  \<open>UserJoined\<close> is
  drawings, users, username, roomId, userCount, message; \<open>UserLeft\<close> is users, username,
  roomId, userCount, message; \<open>Chat\<close> is username, text, timestamp; \<open>Verbatim\<close> is an
  inbound message forwarded as it is.
\<close>

datatype envelope =
    ErrorMessage string
  | ErrorMsg string
  | RoomAlreadyExist jsval "chunk list"
  | NoRoom "chunk list"
  | UserJoined "jsval list option" "jsval list" jsval jsval nat "chunk list"
  | UserLeft "jsval list" jsval jsval nat "chunk list"
  | Chat jsval jsval nat
  | Verbatim jsval

datatype error = SyntaxError | TypeError | MissingType

section \<open>Server state\<close>

type_synonym conn = nat

record session =
  currentRoom :: jsval
  usernameServer :: jsval

text \<open>
  The three global maps, the closure variables of every connection, the set of sockets
  whose \<^verbatim>\<open>readyState\<close> is \<^verbatim>\<open>OPEN\<close>, and the calls of \<^verbatim>\<open>send\<close> made so far (recipient and
  envelope, oldest first).  A JavaScript \<^verbatim>\<open>Set\<close> iterates in insertion order, so it is a
  list without repetitions.
\<close>

record server =
  rooms :: "jsval \<rightharpoonup> conn list"
  users :: "jsval \<rightharpoonup> jsval list"
  drawings :: "jsval \<rightharpoonup> jsval list"
  sessions :: "conn \<Rightarrow> session"
  ready :: "conn set"
  outbox :: "(conn \<times> envelope) list"

type_synonym result = "(error \<times> server) + server"

definition set_add :: "'a \<Rightarrow> 'a list \<Rightarrow> 'a list" where
  "set_add x xs = (if x \<in> set xs then xs else xs @ [x])"

definition set_delete :: "'a \<Rightarrow> 'a list \<Rightarrow> 'a list" where
  "set_delete x xs = removeAll x xs"

text \<open>
  A call of \<^verbatim>\<open>ws.send\<close> or \<^verbatim>\<open>client.send\<close>: it is recorded, whatever the state of the
  socket, and is taken not to raise.
\<close>

definition send :: "conn \<Rightarrow> envelope \<Rightarrow> server \<Rightarrow> server" where
  "send ws e s = s\<lparr>outbox := outbox s @ [(ws, e)]\<rparr>"

section \<open>Broadcasting functions\<close>

definition broadcastToRoom :: "jsval \<Rightarrow> envelope \<Rightarrow> server \<Rightarrow> server" where
  "broadcastToRoom room e s =
     (case rooms s room of
        None \<Rightarrow> s
      | Some roomWs \<Rightarrow>
          s\<lparr>outbox := outbox s @
               map (\<lambda>client. (client, e)) (filter (\<lambda>client. client \<in> ready s) roomWs)\<rparr>)"

definition broadcastToRoomExcept :: "jsval \<Rightarrow> conn \<Rightarrow> envelope \<Rightarrow> server \<Rightarrow> server" where
  "broadcastToRoomExcept room excludeWs e s =
     (case rooms s room of
        None \<Rightarrow> s
      | Some roomWs \<Rightarrow>
          s\<lparr>outbox := outbox s @
               map (\<lambda>client. (client, e))
                 (filter (\<lambda>client. client \<noteq> excludeWs \<and> client \<in> ready s) roomWs)\<rparr>)"

section \<open>Room management functions\<close>

text \<open>
  \<^verbatim>\<open>addUserToRoom\<close>: both sets are updated in place before the announcement is built; the
  template literal of its \<^verbatim>\<open>message\<close> field converts the username and the room id, so a
  TypeError there leaves the two additions done and nothing sent.
\<close>

definition addUserToRoom :: "conn \<Rightarrow> jsval \<Rightarrow> jsval \<Rightarrow> server \<Rightarrow> result" where
  "addUserToRoom ws room uname s =
     (case rooms s room of
        None \<Rightarrow> Inl (TypeError, s)
      | Some roomWs \<Rightarrow>
          let s1 = s\<lparr>rooms := (rooms s)(room \<mapsto> set_add ws roomWs)\<rparr> in
          (case users s1 room of
             None \<Rightarrow> Inl (TypeError, s1)
           | Some roomUsers \<Rightarrow>
               let s2 = s1\<lparr>users := (users s1)(room \<mapsto> set_add uname roomUsers)\<rparr> in
               if tostring_throws uname \<or> tostring_throws room then Inl (TypeError, s2)
               else Inr (broadcastToRoom room
                      (UserJoined (drawings s2 room) (set_add uname roomUsers) uname room
                         (length (set_add ws roomWs))
                         [Subst uname, Lit '' joined the room: '', Subst room])
                      s2)))"

text \<open>
  \<^verbatim>\<open>leaveRoom\<close>: the log line after the two deletions converts the username and the room
  id; a TypeError there leaves the room in the registry with the deletions done.
\<close>

definition leaveRoom :: "conn \<Rightarrow> jsval \<Rightarrow> jsval \<Rightarrow> server \<Rightarrow> result" where
  "leaveRoom ws room uname s =
     (case rooms s room of
        None \<Rightarrow> Inr s
      | Some roomWs \<Rightarrow>
          (case users s room of
             None \<Rightarrow> Inr s
           | Some roomUsers \<Rightarrow>
               let s1 = s\<lparr>rooms := (rooms s)(room \<mapsto> set_delete ws roomWs),
                          users := (users s)(room \<mapsto> set_delete uname roomUsers)\<rparr> in
               if tostring_throws uname \<or> tostring_throws room then Inl (TypeError, s1)
               else if length (set_delete ws roomWs) = 0 \<and> length (set_delete uname roomUsers) = 0
               then Inr (s1\<lparr>rooms := (rooms s1)(room := None),
                             users := (users s1)(room := None),
                             drawings := (drawings s1)(room := None)\<rparr>)
               else Inr (broadcastToRoomExcept room ws
                      (UserLeft (set_delete uname roomUsers) uname room
                         (length (set_delete ws roomWs))
                         [Subst uname, Lit '' left the room''])
                      s1)))"

definition handleCreateRoom :: "conn \<Rightarrow> jsval \<Rightarrow> jsval \<Rightarrow> server \<Rightarrow> result" where
  "handleCreateRoom ws room uname s =
     (if \<not> truthy room \<or> \<not> truthy uname
      then Inr (send ws (ErrorMessage ''Missing room ID or username'') s)
      else if rooms s room = None
      then addUserToRoom ws room uname
             (s\<lparr>rooms := (rooms s)(room \<mapsto> []),
                users := (users s)(room \<mapsto> []),
                drawings := (drawings s)(room \<mapsto> [])\<rparr>)
      else if tostring_throws room then Inl (TypeError, s)
      else Inr (send ws (RoomAlreadyExist room [Subst room, Lit '' already existed...'']) s))"

definition handleJoinRoom :: "conn \<Rightarrow> jsval \<Rightarrow> jsval \<Rightarrow> server \<Rightarrow> result" where
  "handleJoinRoom ws room uname s =
     (if \<not> truthy room \<or> \<not> truthy uname
      then Inr (send ws (ErrorMsg ''Missing room ID or username'') s)
      else if rooms s room = None
      then (if tostring_throws room then Inl (TypeError, s)
            else Inr (send ws (NoRoom [Lit ''Room '', Subst room, Lit '' does not exist'']) s))
      else addUserToRoom ws room uname s)"

section \<open>Drawing functions\<close>

definition handleDrawing :: "conn \<Rightarrow> jsval \<Rightarrow> jsval \<Rightarrow> server \<Rightarrow> server" where
  "handleDrawing ws data room s =
     (case drawings s room of
        None \<Rightarrow> s
      | Some drawing \<Rightarrow>
          broadcastToRoomExcept room ws (Verbatim data)
            (if truthy (js_get data ''type'')
             then s\<lparr>drawings := (drawings s)(room \<mapsto> drawing @ [data])\<rparr>
             else s))"

definition handleShape :: "conn \<Rightarrow> jsval \<Rightarrow> jsval \<Rightarrow> server \<Rightarrow> server" where
  "handleShape ws data room s =
     (case drawings s room of
        None \<Rightarrow> s
      | Some drawing \<Rightarrow>
          broadcastToRoomExcept room ws (Verbatim data)
            (if js_get data ''type'' \<noteq> JStr ''clear''
             then s\<lparr>drawings := (drawings s)(room \<mapsto> drawing @ [data])\<rparr>
             else s\<lparr>drawings := (drawings s)(room \<mapsto> [])\<rparr>))"

section \<open>The message and close handlers of a connection\<close>

definition set_currentRoom :: "conn \<Rightarrow> jsval \<Rightarrow> server \<Rightarrow> server" where
  "set_currentRoom ws room s =
     s\<lparr>sessions := (sessions s)(ws := (sessions s ws)\<lparr>currentRoom := room\<rparr>)\<rparr>"

text \<open>
  \<^verbatim>\<open>if (currentRoom) leaveRoom(ws, currentRoom, usernameServer)\<close>, the first statement of
  the \<^verbatim>\<open>create_room\<close> and \<^verbatim>\<open>join_room\<close> cases and the body of the close handler.
\<close>

definition leave_current :: "conn \<Rightarrow> server \<Rightarrow> result" where
  "leave_current ws s =
     (if truthy (currentRoom (sessions s ws))
      then leaveRoom ws (currentRoom (sessions s ws)) (usernameServer (sessions s ws)) s
      else Inr s)"

text \<open>
  \<^verbatim>\<open>if (data.roomId && data.username) { currentRoom = data.roomId; usernameServer = data.username; }\<close>
\<close>

definition adopt :: "conn \<Rightarrow> jsval \<Rightarrow> server \<Rightarrow> server" where
  "adopt ws data s =
     (if truthy (js_get data ''roomId'') \<and> truthy (js_get data ''username'')
      then s\<lparr>sessions := (sessions s)
               (ws := \<lparr>currentRoom = js_get data ''roomId'',
                       usernameServer = js_get data ''username''\<rparr>)\<rparr>
      else s)"

text \<open>
  The body of the \<^verbatim>\<open>try\<close> block after \<^verbatim>\<open>JSON.parse\<close> has returned \<open>data\<close>; \<open>now\<close> is the
  value of \<^verbatim>\<open>Date.now()\<close>.  \<open>Inl\<close> is an exception, with the state at the moment it is
  raised.
\<close>

definition dispatch :: "conn \<Rightarrow> nat \<Rightarrow> jsval \<Rightarrow> server \<Rightarrow> result" where
  "dispatch ws now data s =
     (if data = JNull \<or> data = JUndefined then Inl (TypeError, s)
      else if \<not> truthy (js_get data ''type'') then Inl (MissingType, s)
      else if js_get data ''type'' = JStr ''create_room'' then
        (case leave_current ws s of
           Inl x \<Rightarrow> Inl x
         | Inr s1 \<Rightarrow>
             let s2 = adopt ws data s1 in
             handleCreateRoom ws (currentRoom (sessions s2 ws)) (usernameServer (sessions s2 ws)) s2)
      else if js_get data ''type'' = JStr ''join_room'' then
        (case leave_current ws s of
           Inl x \<Rightarrow> Inl x
         | Inr s1 \<Rightarrow>
             let s2 = adopt ws data s1 in
             handleJoinRoom ws (currentRoom (sessions s2 ws)) (usernameServer (sessions s2 ws)) s2)
      else if js_get data ''type'' = JStr ''chat'' then
        Inr (broadcastToRoomExcept (js_get data ''roomId'') ws
               (Chat (usernameServer (sessions s ws)) (js_get data ''text'') now)
               (set_currentRoom ws (js_get data ''roomId'') s))
      else if js_get data ''type'' \<in> {JStr ''start'', JStr ''draw''} then
        Inr (handleDrawing ws data (js_get data ''roomId'')
               (set_currentRoom ws (js_get data ''roomId'') s))
      else if js_get data ''type'' \<in> {JStr ''text'', JStr ''rectangle'', JStr ''circle'', JStr ''clear''} then
        Inr (handleShape ws data (js_get data ''roomId'')
               (set_currentRoom ws (js_get data ''roomId'') s))
      else if tostring_throws (js_get data ''type'') then Inl (TypeError, s)
      else Inr s)"

text \<open>
  \<^verbatim>\<open>ws.on('message')\<close>: \<open>raw\<close> is what \<^verbatim>\<open>JSON.parse\<close> made of the payload, \<open>None\<close> when it
  raised a SyntaxError.  Whatever is raised inside the \<^verbatim>\<open>try\<close> block is caught and
  answered with the error envelope; nothing is rolled back.
\<close>

definition on_message :: "conn \<Rightarrow> nat \<Rightarrow> jsval option \<Rightarrow> server \<Rightarrow> server" where
  "on_message ws now raw s =
     (case (case raw of None \<Rightarrow> Inl (SyntaxError, s) | Some data \<Rightarrow> dispatch ws now data s) of
        Inl (e, s') \<Rightarrow> send ws (ErrorMessage ''Invalid data format'') s'
      | Inr s' \<Rightarrow> s')"

text \<open>\<^verbatim>\<open>ws.on('close')\<close>: no \<^verbatim>\<open>try\<close> here, an exception of \<^verbatim>\<open>leaveRoom\<close> is not caught.\<close>

definition on_close :: "conn \<Rightarrow> server \<Rightarrow> result" where
  "on_close ws s = leave_current ws s"

section \<open>Runs of the event loop\<close>

text \<open>
  One handler runs to completion before the next event.  \<open>ReadyState\<close> is the transport
  changing a socket's \<^verbatim>\<open>readyState\<close> between two handlers.  A run stops at an uncaught
  exception.  Initially the maps are empty and the closure variables of every
  connection are \<^verbatim>\<open>undefined\<close>.
\<close>

datatype event =
    Message conn nat "jsval option"
  | Close conn
  | ReadyState conn bool

fun step :: "event \<Rightarrow> server \<Rightarrow> result" where
  "step (Message ws now raw) s = Inr (on_message ws now raw s)"
| "step (Close ws) s = on_close ws s"
| "step (ReadyState ws b) s = Inr (s\<lparr>ready := (if b then ready s \<union> {ws} else ready s - {ws})\<rparr>)"

fun run :: "event list \<Rightarrow> server \<Rightarrow> result" where
  "run [] s = Inr s"
| "run (e # es) s = (case step e s of Inl x \<Rightarrow> Inl x | Inr s' \<Rightarrow> run es s')"

definition init_server :: server where
  "init_server =
     \<lparr>rooms = Map.empty, users = Map.empty, drawings = Map.empty,
      sessions = (\<lambda>ws. \<lparr>currentRoom = JUndefined, usernameServer = JUndefined\<rparr>),
      ready = {}, outbox = []\<rparr>"


section \<open>Notions used in the statements\<close>

text \<open>The connections in a room's member set (none when the room is not registered).\<close>

definition members :: "server \<Rightarrow> jsval \<Rightarrow> conn list" where
  "members s room = (case rooms s room of None \<Rightarrow> [] | Some roomWs \<Rightarrow> roomWs)"

text \<open>The three maps of the registry have the same keys.\<close>

definition registry_ok :: "server \<Rightarrow> bool" where
  "registry_ok s = (dom (users s) = dom (rooms s) \<and> dom (drawings s) = dom (rooms s))"

text \<open>The state a handler leaves behind, whether it returned or raised.\<close>

definition final :: "result \<Rightarrow> server" where
  "final r = (case r of Inl (e, s) \<Rightarrow> s | Inr s \<Rightarrow> s)"

text \<open>The nine values of \<^verbatim>\<open>type\<close> that the \<^verbatim>\<open>switch\<close> has a case for.\<close>

definition known_types :: "jsval set" where
  "known_types = {JStr ''create_room'', JStr ''join_room'', JStr ''chat'', JStr ''start'',
                  JStr ''draw'', JStr ''text'', JStr ''rectangle'', JStr ''circle'', JStr ''clear''}"

text \<open>Kinds of envelope.\<close>

fun is_user_left :: "envelope \<Rightarrow> bool" where
  "is_user_left (UserLeft us u r n t) = True"
| "is_user_left e = False"

fun is_user_joined :: "envelope \<Rightarrow> bool" where
  "is_user_joined (UserJoined d us u r n t) = True"
| "is_user_joined e = False"

text \<open>
  An inbound message fails when \<^verbatim>\<open>JSON.parse\<close> raises or the rest of the \<^verbatim>\<open>try\<close> block
  does.
\<close>

definition handling_fails :: "conn \<Rightarrow> nat \<Rightarrow> jsval option \<Rightarrow> server \<Rightarrow> bool" where
  "handling_fails ws now raw s =
     (case raw of None \<Rightarrow> True | Some data \<Rightarrow> isl (dispatch ws now data s))"

text \<open>
  The history that the specification's DrawingLog prescribes: starting from \<open>h\<close>, an
  event is appended unless it is the clear marker, which resets the log to empty.
\<close>

fun spec_replay :: "jsval list \<Rightarrow> jsval list \<Rightarrow> jsval list" where
  "spec_replay h [] = h"
| "spec_replay h (d # ds) = spec_replay (if js_get d ''type'' = JStr ''clear'' then [] else h @ [d]) ds"

text \<open>
  A drawing event for a room: a parsed message of one of the six drawing types that
  names the room, from any connection.  Its payload is the message itself.
\<close>

fun drawing_event :: "jsval \<Rightarrow> event \<Rightarrow> bool" where
  "drawing_event room (Message ws now (Some data)) =
     (js_get data ''type'' \<in> {JStr ''start'', JStr ''draw'', JStr ''text'', JStr ''rectangle'',
                               JStr ''circle'', JStr ''clear''} \<and>
      js_get data ''roomId'' = room)"
| "drawing_event room ev = False"

fun payload :: "event \<Rightarrow> jsval" where
  "payload (Message ws now (Some data)) = data"
| "payload ev = JUndefined"

text \<open>The calls of \<^verbatim>\<open>send\<close> made between two states.\<close>

definition sent_between :: "server \<Rightarrow> server \<Rightarrow> (conn \<times> envelope) list" where
  "sent_between s s' = drop (length (outbox s)) (outbox s')"

text \<open>
  A tidy state: the three maps share their keys, every registered room id is truthy, and
  a connection is a member only of the room its session points at.
\<close>

definition tidy :: "server \<Rightarrow> bool" where
  "tidy s = (registry_ok s \<and> (\<forall>k. rooms s k \<noteq> None \<longrightarrow> truthy k) \<and>
             (\<forall>c k. c \<in> set (members s k) \<longrightarrow> currentRoom (sessions s c) = k))"

text \<open>
  A relayed message keeps to its sender's room when the room it names is the one the
  sender's session points at; every other event does so trivially.  A run is disciplined
  when each of its events keeps to the room in the state it is handled in.
\<close>

fun keeps_to_room :: "event \<Rightarrow> server \<Rightarrow> bool" where
  "keeps_to_room (Message ws now (Some data)) s =
     (js_get data ''type'' \<in> {JStr ''chat'', JStr ''start'', JStr ''draw'', JStr ''text'',
         JStr ''rectangle'', JStr ''circle'', JStr ''clear''} \<longrightarrow>
      js_get data ''roomId'' = currentRoom (sessions s ws))"
| "keeps_to_room ev s = True"

fun disciplined :: "event list \<Rightarrow> server \<Rightarrow> bool" where
  "disciplined [] s = True"
| "disciplined (ev # es) s =
     (keeps_to_room ev s \<and> (case step ev s of Inl x \<Rightarrow> True | Inr s' \<Rightarrow> disciplined es s'))"

text \<open>
  An event creates a room when it is a \<^verbatim>\<open>create_room\<close> message, the room is not registered
  once the sender has left its previous room, and the room is registered when the handler
  is done.
\<close>

fun creates :: "jsval \<Rightarrow> event \<Rightarrow> server \<Rightarrow> bool" where
  "creates room (Message ws now (Some data)) s =
     (js_get data ''type'' = JStr ''create_room'' \<and>
      rooms (final (leave_current ws s)) room = None \<and>
      rooms (on_message ws now (Some data) s) room \<noteq> None)"
| "creates room ev s = False"

text \<open>
  The log of a room as the specification keeps it, followed along a run.  A room that is
  not registered has no log.  The event that creates the room starts an empty log, a
  drawing event for the room is appended, or resets the log when it is a \<^verbatim>\<open>clear\<close>, and
  every other event (a join, a chat, a close, a message for another room, a message that
  fails) leaves the log as it is.
\<close>

definition log_event :: "jsval \<Rightarrow> event \<Rightarrow> server \<Rightarrow> jsval list option \<Rightarrow> jsval list option" where
  "log_event room ev s h =
     (if rooms (final (step ev s)) room = None then None
      else if creates room ev s then Some []
      else if drawing_event room ev then map_option (\<lambda>l. spec_replay l [payload ev]) h
      else h)"

fun history_log :: "jsval \<Rightarrow> event list \<Rightarrow> server \<Rightarrow> jsval list option \<Rightarrow> jsval list option" where
  "history_log room [] s h = h"
| "history_log room (ev # es) s h =
     (case step ev s of
        Inl x \<Rightarrow> log_event room ev s h
      | Inr s' \<Rightarrow> history_log room es s' (log_event room ev s h))"

text \<open>The drawing events for a room among the events of a run, in the order of the run.\<close>

definition drawn :: "jsval \<Rightarrow> event list \<Rightarrow> jsval list" where
  "drawn room es = map payload (filter (drawing_event room) es)"

text \<open>
  A room persists through a run when it is registered after each event and no event
  creates it anew.
\<close>

fun persists :: "jsval \<Rightarrow> event list \<Rightarrow> server \<Rightarrow> bool" where
  "persists room [] s = True"
| "persists room (ev # es) s =
     (\<not> creates room ev s \<and> rooms (final (step ev s)) room \<noteq> None \<and>
      persists room es (final (step ev s)))"

section \<open>Example messages and states\<close>

text \<open>
  A parsed message object allocated at address \<open>a\<close>, with and without a username.
\<close>

definition room_message :: "nat \<Rightarrow> string \<Rightarrow> string \<Rightarrow> string \<Rightarrow> jsval" where
  "room_message a ty room uname =
     JObj a [(''type'', JStr ty), (''roomId'', JStr room), (''username'', JStr uname)]"

definition plain_message :: "nat \<Rightarrow> string \<Rightarrow> string \<Rightarrow> jsval" where
  "plain_message a ty room = JObj a [(''type'', JStr ty), (''roomId'', JStr room)]"

text \<open>Connections 0 and 1 are open; connection 0 creates room r1 as alice.\<close>

definition alice_creates_r1 :: "event list" where
  "alice_creates_r1 =
     [ReadyState 0 True, ReadyState 1 True,
      Message 0 1 (Some (room_message 1 ''create_room'' ''r1'' ''alice''))]"

definition one_room :: server where
  "one_room = final (run alice_creates_r1 init_server)"

text \<open>Then connection 1 joins r1 as bob.\<close>

definition bob_joins_r1 :: "event list" where
  "bob_joins_r1 =
     alice_creates_r1 @ [Message 1 2 (Some (room_message 2 ''join_room'' ''r1'' ''bob''))]"

definition two_in_room :: server where
  "two_in_room = final (run bob_joins_r1 init_server)"

text \<open>Then connection 2 opens and creates room r2 as carol.\<close>

definition carol_creates_r2 :: "event list" where
  "carol_creates_r2 =
     bob_joins_r1 @ [ReadyState 2 True,
                     Message 2 3 (Some (room_message 3 ''create_room'' ''r2'' ''carol''))]"

definition two_rooms :: server where
  "two_rooms = final (run carol_creates_r2 init_server)"

text \<open>
  A \<^verbatim>\<open>create_room\<close> message whose username is the object \<^verbatim>\<open>{"toString": 1}\<close>.
\<close>

definition hostile_create :: jsval where
  "hostile_create =
     JObj 3 [(''type'', JStr ''create_room''), (''roomId'', JStr ''r2''),
             (''username'', JObj 4 [(''toString'', JNum (Finite 1))])]"

text \<open>After creating r1, connection 0 closes: r1 is removed.\<close>

definition alice_leaves :: "event list" where
  "alice_leaves = alice_creates_r1 @ [Close 0]"

definition r1_removed :: server where
  "r1_removed = final (run alice_leaves init_server)"

text \<open>
  After creating r1, connection 0 draws a stroke, clears the canvas and draws a
  rectangle.
\<close>

definition alice_draws :: "event list" where
  "alice_draws =
     [Message 0 2 (Some (plain_message 2 ''draw'' ''r1'')),
      Message 0 3 (Some (plain_message 3 ''clear'' ''r1'')),
      Message 0 4 (Some (plain_message 4 ''rectangle'' ''r1''))]"

definition painted :: server where
  "painted = final (run (alice_creates_r1 @ alice_draws) init_server)"

text \<open>
  After creating r1, connection 0 sends a chat that names another room and then creates
  r2.
\<close>

definition alice_strays :: "event list" where
  "alice_strays =
     alice_creates_r1 @
     [Message 0 2 (Some (plain_message 2 ''chat'' ''lobby'')),
      Message 0 3 (Some (room_message 3 ''create_room'' ''r2'' ''alice''))]"

definition strayed :: server where
  "strayed = final (run alice_strays init_server)"

text \<open>After creating r1, connection 0 sends a chat that names another room.\<close>

definition alice_chats_elsewhere :: "event list" where
  "alice_chats_elsewhere =
     alice_creates_r1 @ [Message 0 2 (Some (plain_message 2 ''chat'' ''lobby''))]"

definition chatted :: server where
  "chatted = final (run alice_chats_elsewhere init_server)"

section \<open>Basic facts about the handlers\<close>

lemma js_get_typed_nonnull: "js_get data name = JStr t \<Longrightarrow> data \<noteq> JNull \<and> data \<noteq> JUndefined"
  by (cases data) auto

lemma dispatch_create:
  "js_get data ''type'' = JStr ''create_room'' \<Longrightarrow>
   dispatch ws now data s =
     (case leave_current ws s of
        Inl x \<Rightarrow> Inl x
      | Inr s1 \<Rightarrow>
          handleCreateRoom ws (currentRoom (sessions (adopt ws data s1) ws))
            (usernameServer (sessions (adopt ws data s1) ws)) (adopt ws data s1))"
  using js_get_typed_nonnull[of data "''type''" "''create_room''"]
  by (simp add: dispatch_def Let_def split: sum.split)

lemma dispatch_join:
  "js_get data ''type'' = JStr ''join_room'' \<Longrightarrow>
   dispatch ws now data s =
     (case leave_current ws s of
        Inl x \<Rightarrow> Inl x
      | Inr s1 \<Rightarrow>
          handleJoinRoom ws (currentRoom (sessions (adopt ws data s1) ws))
            (usernameServer (sessions (adopt ws data s1) ws)) (adopt ws data s1))"
  using js_get_typed_nonnull[of data "''type''" "''join_room''"]
  by (simp add: dispatch_def Let_def split: sum.split)

lemma dispatch_chat:
  "js_get data ''type'' = JStr ''chat'' \<Longrightarrow>
   dispatch ws now data s =
     Inr (broadcastToRoomExcept (js_get data ''roomId'') ws
            (Chat (usernameServer (sessions s ws)) (js_get data ''text'') now)
            (set_currentRoom ws (js_get data ''roomId'') s))"
  using js_get_typed_nonnull[of data "''type''" "''chat''"]
  by (simp add: dispatch_def)

lemma dispatch_drawing:
  "js_get data ''type'' \<in> {JStr ''start'', JStr ''draw''} \<Longrightarrow>
   dispatch ws now data s =
     Inr (handleDrawing ws data (js_get data ''roomId'')
            (set_currentRoom ws (js_get data ''roomId'') s))"
  using js_get_typed_nonnull[of data "''type''"]
  by (auto simp add: dispatch_def)

lemma dispatch_shape:
  "js_get data ''type'' \<in> {JStr ''text'', JStr ''rectangle'', JStr ''circle'', JStr ''clear''} \<Longrightarrow>
   dispatch ws now data s =
     Inr (handleShape ws data (js_get data ''roomId'')
            (set_currentRoom ws (js_get data ''roomId'') s))"
  using js_get_typed_nonnull[of data "''type''"]
  by (auto simp add: dispatch_def)

lemma final_simps [simp]: "final (Inl (e, s)) = s" "final (Inr s) = s"
  by (simp_all add: final_def)

lemma broadcastToRoomExcept_frame [simp]:
  "rooms (broadcastToRoomExcept room x e s) = rooms s"
  "users (broadcastToRoomExcept room x e s) = users s"
  "drawings (broadcastToRoomExcept room x e s) = drawings s"
  "sessions (broadcastToRoomExcept room x e s) = sessions s"
  "ready (broadcastToRoomExcept room x e s) = ready s"
  by (simp_all add: broadcastToRoomExcept_def split: option.split)

lemma broadcastToRoom_frame [simp]:
  "rooms (broadcastToRoom room e s) = rooms s"
  "users (broadcastToRoom room e s) = users s"
  "drawings (broadcastToRoom room e s) = drawings s"
  "sessions (broadcastToRoom room e s) = sessions s"
  "ready (broadcastToRoom room e s) = ready s"
  by (simp_all add: broadcastToRoom_def split: option.split)

lemma broadcastToRoomExcept_outbox:
  "outbox (broadcastToRoomExcept room x e s) =
     outbox s @ map (\<lambda>c. (c, e)) (filter (\<lambda>c. c \<noteq> x \<and> c \<in> ready s) (members s room))"
  by (simp add: broadcastToRoomExcept_def members_def split: option.split)

lemma broadcastToRoom_outbox:
  "outbox (broadcastToRoom room e s) =
     outbox s @ map (\<lambda>c. (c, e)) (filter (\<lambda>c. c \<in> ready s) (members s room))"
  by (simp add: broadcastToRoom_def members_def split: option.split)

lemma send_frame [simp]:
  "rooms (send ws e s) = rooms s"
  "users (send ws e s) = users s"
  "drawings (send ws e s) = drawings s"
  "sessions (send ws e s) = sessions s"
  "ready (send ws e s) = ready s"
  "outbox (send ws e s) = outbox s @ [(ws, e)]"
  by (simp_all add: send_def)

lemma set_currentRoom_frame [simp]:
  "rooms (set_currentRoom ws room s) = rooms s"
  "users (set_currentRoom ws room s) = users s"
  "drawings (set_currentRoom ws room s) = drawings s"
  "ready (set_currentRoom ws room s) = ready s"
  "outbox (set_currentRoom ws room s) = outbox s"
  by (simp_all add: set_currentRoom_def)

lemma adopt_frame [simp]:
  "rooms (adopt ws data s) = rooms s"
  "users (adopt ws data s) = users s"
  "drawings (adopt ws data s) = drawings s"
  "ready (adopt ws data s) = ready s"
  "outbox (adopt ws data s) = outbox s"
  by (simp_all add: adopt_def)

lemma registry_ok_cong:
  "rooms s' = rooms s \<Longrightarrow> users s' = users s \<Longrightarrow> drawings s' = drawings s \<Longrightarrow>
   registry_ok s' = registry_ok s"
  by (simp add: registry_ok_def)

lemma registry_ok_upd_rooms:
  "registry_ok s \<Longrightarrow> rooms s room \<noteq> None \<Longrightarrow> registry_ok (s\<lparr>rooms := (rooms s)(room \<mapsto> v)\<rparr>)"
  by (auto simp add: registry_ok_def)

lemma registry_ok_create:
  "registry_ok s \<Longrightarrow>
   registry_ok (s\<lparr>rooms := (rooms s)(room \<mapsto> a), users := (users s)(room \<mapsto> b),
                   drawings := (drawings s)(room \<mapsto> c)\<rparr>)"
  by (simp add: registry_ok_def)

lemma registry_ok_delete:
  "registry_ok s \<Longrightarrow>
   registry_ok (s\<lparr>rooms := (rooms s)(room := None), users := (users s)(room := None),
                   drawings := (drawings s)(room := None)\<rparr>)"
  by (simp add: registry_ok_def)

lemma registry_okD:
  assumes "registry_ok s"
  shows "(users s k = None) = (rooms s k = None)" and "(drawings s k = None) = (rooms s k = None)"
  using assms unfolding registry_ok_def by (metis domIff)+

lemma registry_ok_upd_users:
  "registry_ok s \<Longrightarrow> rooms s room \<noteq> None \<Longrightarrow> registry_ok (s\<lparr>users := (users s)(room \<mapsto> v)\<rparr>)"
  by (auto simp add: registry_ok_def)

lemma registry_ok_upd_drawings:
  "registry_ok s \<Longrightarrow> rooms s room \<noteq> None \<Longrightarrow> registry_ok (s\<lparr>drawings := (drawings s)(room \<mapsto> v)\<rparr>)"
  by (auto simp add: registry_ok_def)

lemma registry_ok_upd_both:
  "registry_ok s \<Longrightarrow> rooms s room \<noteq> None \<Longrightarrow>
   registry_ok (s\<lparr>rooms := (rooms s)(room \<mapsto> a), users := (users s)(room \<mapsto> b)\<rparr>)"
  by (auto simp add: registry_ok_def)

lemma registry_ok_frame [simp]:
  "registry_ok (broadcastToRoomExcept room x e s) = registry_ok s"
  "registry_ok (broadcastToRoom room e s) = registry_ok s"
  "registry_ok (send ws e s) = registry_ok s"
  "registry_ok (set_currentRoom ws room s) = registry_ok s"
  "registry_ok (adopt ws data s) = registry_ok s"
  by (simp_all add: registry_ok_def)

lemma registry_ok_leaveRoom: "registry_ok s \<Longrightarrow> registry_ok (final (leaveRoom ws room uname s))"
proof -
  assume ok: "registry_ok s"
  show ?thesis
  proof (cases "rooms s room")
    case None
    with ok show ?thesis by (simp add: leaveRoom_def)
  next
    case (Some roomWs)
    note r = this
    show ?thesis
    proof (cases "users s room")
      case None
      with r ok show ?thesis by (simp add: leaveRoom_def)
    next
      case (Some roomUsers)
      from r have nn: "rooms s room \<noteq> None" by simp
      let ?s1 = "s\<lparr>rooms := (rooms s)(room \<mapsto> set_delete ws roomWs),
                       users := (users s)(room \<mapsto> set_delete uname roomUsers)\<rparr>"
      have ok1: "registry_ok ?s1" using registry_ok_upd_both[OF ok nn] .
      have ok2: "registry_ok (?s1\<lparr>rooms := (rooms ?s1)(room := None),
                                      users := (users ?s1)(room := None),
                                      drawings := (drawings ?s1)(room := None)\<rparr>)"
        using registry_ok_delete[OF ok1] .
      have ok3: "registry_ok (broadcastToRoomExcept room ws e ?s1)" for e
        using ok1 by simp
      show ?thesis
        unfolding leaveRoom_def using r Some ok1 ok2 ok3
        by (simp add: Let_def del: fun_upd_apply)
    qed
  qed
qed

lemma registry_ok_addUserToRoom: "registry_ok s \<Longrightarrow> registry_ok (final (addUserToRoom ws room uname s))"
proof -
  assume ok: "registry_ok s"
  show ?thesis
  proof (cases "rooms s room")
    case None
    with ok show ?thesis by (simp add: addUserToRoom_def)
  next
    case (Some roomWs)
    note r = this
    then obtain roomUsers where u: "users s room = Some roomUsers"
      using registry_okD(1)[OF ok, of room] by auto
    from r have nn: "rooms s room \<noteq> None" by simp
    let ?s2 = "s\<lparr>rooms := (rooms s)(room \<mapsto> set_add ws roomWs),
                       users := (users s)(room \<mapsto> set_add uname roomUsers)\<rparr>"
    have ok2: "registry_ok ?s2" using registry_ok_upd_both[OF ok nn] .
    show ?thesis
      unfolding addUserToRoom_def using r u ok2
      by (simp add: Let_def del: fun_upd_apply)
  qed
qed

lemma registry_ok_handleCreateRoom: "registry_ok s \<Longrightarrow> registry_ok (final (handleCreateRoom ws room uname s))"
  using registry_ok_addUserToRoom[OF registry_ok_create[of s room "[]" "[]" "[]"], of ws room uname]
  by (simp add: handleCreateRoom_def)

lemma registry_ok_handleJoinRoom: "registry_ok s \<Longrightarrow> registry_ok (final (handleJoinRoom ws room uname s))"
  using registry_ok_addUserToRoom[of s ws room uname]
  by (simp add: handleJoinRoom_def)

lemma registry_ok_handleDrawing: "registry_ok s \<Longrightarrow> registry_ok (handleDrawing ws data room s)"
proof (cases "drawings s room")
  case None
  assume "registry_ok s"
  with None show ?thesis by (simp add: handleDrawing_def)
next
  case (Some drawing)
  assume ok: "registry_ok s"
  with Some have "rooms s room \<noteq> None" using registry_okD(2)[OF ok, of room] by simp
  from registry_ok_upd_drawings[OF ok this] ok Some show ?thesis
    by (simp add: handleDrawing_def del: fun_upd_apply)
qed

lemma registry_ok_handleShape: "registry_ok s \<Longrightarrow> registry_ok (handleShape ws data room s)"
proof (cases "drawings s room")
  case None
  assume "registry_ok s"
  with None show ?thesis by (simp add: handleShape_def)
next
  case (Some drawing)
  assume ok: "registry_ok s"
  with Some have "rooms s room \<noteq> None" using registry_okD(2)[OF ok, of room] by simp
  from registry_ok_upd_drawings[OF ok this] ok Some show ?thesis
    by (simp add: handleShape_def del: fun_upd_apply)
qed

lemma registry_ok_leave_current: "registry_ok s \<Longrightarrow> registry_ok (final (leave_current ws s))"
  by (simp add: leave_current_def registry_ok_leaveRoom)

lemma registry_ok_after_leave:
  assumes ok: "registry_ok s"
  shows "registry_ok (final (case leave_current ws s of Inl x \<Rightarrow> Inl x
           | Inr s1 \<Rightarrow> handleCreateRoom ws (currentRoom (sessions (adopt ws data s1) ws))
                         (usernameServer (sessions (adopt ws data s1) ws)) (adopt ws data s1)))"
    and "registry_ok (final (case leave_current ws s of Inl x \<Rightarrow> Inl x
           | Inr s1 \<Rightarrow> handleJoinRoom ws (currentRoom (sessions (adopt ws data s1) ws))
                         (usernameServer (sessions (adopt ws data s1) ws)) (adopt ws data s1)))"
proof -
  have l: "registry_ok (final (leave_current ws s))"
    using ok by (rule registry_ok_leave_current)
  show "registry_ok (final (case leave_current ws s of Inl x \<Rightarrow> Inl x
           | Inr s1 \<Rightarrow> handleCreateRoom ws (currentRoom (sessions (adopt ws data s1) ws))
                         (usernameServer (sessions (adopt ws data s1) ws)) (adopt ws data s1)))"
  proof (cases "leave_current ws s")
    case (Inl x)
    with l show ?thesis by (cases x) simp
  next
    case (Inr s1)
    with l have "registry_ok (adopt ws data s1)" by simp
    from registry_ok_handleCreateRoom[OF this] Inr show ?thesis by simp
  qed
  show "registry_ok (final (case leave_current ws s of Inl x \<Rightarrow> Inl x
           | Inr s1 \<Rightarrow> handleJoinRoom ws (currentRoom (sessions (adopt ws data s1) ws))
                         (usernameServer (sessions (adopt ws data s1) ws)) (adopt ws data s1)))"
  proof (cases "leave_current ws s")
    case (Inl x)
    with l show ?thesis by (cases x) simp
  next
    case (Inr s1)
    with l have "registry_ok (adopt ws data s1)" by simp
    from registry_ok_handleJoinRoom[OF this] Inr show ?thesis by simp
  qed
qed

lemma registry_ok_dispatch:
  assumes ok: "registry_ok s"
  shows "registry_ok (final (dispatch ws now data s))"
  using ok registry_ok_after_leave[OF ok, of ws data]
    registry_ok_handleDrawing[of "set_currentRoom ws (js_get data ''roomId'') s" ws data "js_get data ''roomId''"]
    registry_ok_handleShape[of "set_currentRoom ws (js_get data ''roomId'') s" ws data "js_get data ''roomId''"]
  unfolding dispatch_def Let_def
  by (simp del: final_simps split del: if_split) (simp split: if_split)

lemma registry_ok_on_message: "registry_ok s \<Longrightarrow> registry_ok (on_message ws now raw s)"
proof (cases raw)
  case None
  assume "registry_ok s"
  with None show ?thesis by (simp add: on_message_def)
next
  case (Some data)
  assume "registry_ok s"
  from registry_ok_dispatch[OF this, of ws now data] Some show ?thesis
    by (cases "dispatch ws now data s") (auto simp: on_message_def)
qed

lemma registry_ok_step: "registry_ok s \<Longrightarrow> registry_ok (final (step e s))"
proof (cases e)
  case (Message ws now raw)
  assume "registry_ok s"
  with Message show ?thesis by (simp add: registry_ok_on_message)
next
  case (Close ws)
  assume "registry_ok s"
  with Close show ?thesis by (simp add: on_close_def registry_ok_leave_current)
next
  case (ReadyState ws b)
  assume "registry_ok s"
  with ReadyState show ?thesis by (simp add: registry_ok_def)
qed

lemma registry_ok_run: "registry_ok s \<Longrightarrow> registry_ok (final (run es s))"
proof (induction es arbitrary: s)
  case Nil
  then show ?case by simp
next
  case (Cons e es)
  show ?case
  proof (cases "step e s")
    case (Inl x)
    with registry_ok_step[OF Cons.prems, of e] show ?thesis by (cases x) simp
  next
    case (Inr s')
    with registry_ok_step[OF Cons.prems, of e] have "registry_ok s'" by simp
    from Cons.IH[OF this] Inr show ?thesis by simp
  qed
qed

lemma registry_ok_init: "registry_ok init_server"
  by (simp add: registry_ok_def init_server_def)


lemmas handler_defs =
  on_message_def dispatch_def leave_current_def adopt_def handleCreateRoom_def handleJoinRoom_def
  addUserToRoom_def leaveRoom_def handleDrawing_def handleShape_def broadcastToRoom_def
  broadcastToRoomExcept_def set_currentRoom_def set_add_def set_delete_def send_def on_close_def
  init_server_def Let_def

lemma broadcastToRoomExcept_absent: "rooms s room = None \<Longrightarrow> broadcastToRoomExcept room x e s = s"
  by (simp add: broadcastToRoomExcept_def)

lemma on_message_chat:
  "js_get data ''type'' = JStr ''chat'' \<Longrightarrow>
   on_message ws now (Some data) s =
     broadcastToRoomExcept (js_get data ''roomId'') ws
       (Chat (usernameServer (sessions s ws)) (js_get data ''text'') now)
       (set_currentRoom ws (js_get data ''roomId'') s)"
  by (simp add: on_message_def dispatch_chat)

lemma on_message_drawing:
  "js_get data ''type'' \<in> {JStr ''start'', JStr ''draw''} \<Longrightarrow>
   on_message ws now (Some data) s =
     handleDrawing ws data (js_get data ''roomId'') (set_currentRoom ws (js_get data ''roomId'') s)"
  by (simp add: on_message_def dispatch_drawing)

lemma on_message_shape:
  "js_get data ''type'' \<in> {JStr ''text'', JStr ''rectangle'', JStr ''circle'', JStr ''clear''} \<Longrightarrow>
   on_message ws now (Some data) s =
     handleShape ws data (js_get data ''roomId'') (set_currentRoom ws (js_get data ''roomId'') s)"
  by (simp add: on_message_def dispatch_shape)

lemma relay_cases:
  assumes "js_get data ''type'' \<in> {JStr ''chat'', JStr ''start'', JStr ''draw'', JStr ''text'',
             JStr ''rectangle'', JStr ''circle'', JStr ''clear''}"
  obtains (chat) "js_get data ''type'' = JStr ''chat''"
    | (drawing) "js_get data ''type'' \<in> {JStr ''start'', JStr ''draw''}"
    | (shape) "js_get data ''type'' \<in> {JStr ''text'', JStr ''rectangle'', JStr ''circle'', JStr ''clear''}"
  using assms by auto

section \<open>The example states, evaluated\<close>

lemma example_message_fields [simp]:
  "js_get (room_message a ty room uname) ''type'' = JStr ty"
  "js_get (room_message a ty room uname) ''roomId'' = JStr room"
  "js_get (room_message a ty room uname) ''username'' = JStr uname"
  "js_get (plain_message a ty room) ''type'' = JStr ty"
  "js_get (plain_message a ty room) ''roomId'' = JStr room"
  "js_get (plain_message a ty room) ''username'' = JUndefined"
  "js_get (plain_message a ty room) ''text'' = JUndefined"
  by (simp_all add: room_message_def plain_message_def)

lemma one_room_reached: "run alice_creates_r1 init_server = Inr one_room"
  by (simp add: one_room_def alice_creates_r1_def room_message_def handler_defs)

lemma one_room_fields:
  "rooms one_room = [JStr ''r1'' \<mapsto> [0]]"
  "users one_room = [JStr ''r1'' \<mapsto> [JStr ''alice'']]"
  "drawings one_room = [JStr ''r1'' \<mapsto> []]"
  "sessions one_room 0 = \<lparr>currentRoom = JStr ''r1'', usernameServer = JStr ''alice''\<rparr>"
  "sessions one_room (Suc 0) = \<lparr>currentRoom = JUndefined, usernameServer = JUndefined\<rparr>"
  by (simp_all add: one_room_def alice_creates_r1_def room_message_def handler_defs)

lemma one_room_ready: "ready one_room = {0, 1}"
  by (auto simp add: one_room_def alice_creates_r1_def room_message_def handler_defs)

lemma one_room_outbox:
  "outbox one_room =
     [(0, UserJoined (Some []) [JStr ''alice''] (JStr ''alice'') (JStr ''r1'') 1
            [Subst (JStr ''alice''), Lit '' joined the room: '', Subst (JStr ''r1'')])]"
  by (simp add: one_room_def alice_creates_r1_def room_message_def handler_defs)

lemma two_in_room_step:
  "two_in_room = on_message 1 2 (Some (room_message 2 ''join_room'' ''r1'' ''bob'')) one_room"
  by (simp add: two_in_room_def bob_joins_r1_def one_room_def alice_creates_r1_def room_message_def
      handler_defs)

lemma two_in_room_reached: "run bob_joins_r1 init_server = Inr two_in_room"
  by (simp add: two_in_room_def bob_joins_r1_def alice_creates_r1_def room_message_def handler_defs)

lemma two_in_room_fields:
  "rooms two_in_room = [JStr ''r1'' \<mapsto> [0, 1]]"
  "users two_in_room = [JStr ''r1'' \<mapsto> [JStr ''alice'', JStr ''bob'']]"
  "drawings two_in_room = [JStr ''r1'' \<mapsto> []]"
  "sessions two_in_room 0 = \<lparr>currentRoom = JStr ''r1'', usernameServer = JStr ''alice''\<rparr>"
  "sessions two_in_room (Suc 0) = \<lparr>currentRoom = JStr ''r1'', usernameServer = JStr ''bob''\<rparr>"
  by (simp_all add: two_in_room_step one_room_fields one_room_ready room_message_def handler_defs)

lemma two_in_room_ready: "ready two_in_room = {0, 1}"
  by (simp add: two_in_room_step one_room_fields one_room_ready room_message_def handler_defs)

lemma two_in_room_outbox:
  "outbox two_in_room = outbox one_room @
     [(0, UserJoined (Some []) [JStr ''alice'', JStr ''bob''] (JStr ''bob'') (JStr ''r1'') 2
            [Subst (JStr ''bob''), Lit '' joined the room: '', Subst (JStr ''r1'')]),
      (1, UserJoined (Some []) [JStr ''alice'', JStr ''bob''] (JStr ''bob'') (JStr ''r1'') 2
            [Subst (JStr ''bob''), Lit '' joined the room: '', Subst (JStr ''r1'')])]"
  by (simp add: two_in_room_step one_room_fields one_room_ready room_message_def handler_defs)

section \<open>Messages without a usable type, and relayed messages\<close>

lemma on_message_missing_type:
  "\<not> truthy (js_get data ''type'') \<Longrightarrow>
   on_message ws now (Some data) s = send ws (ErrorMessage ''Invalid data format'') s"
  by (simp add: on_message_def dispatch_def)

lemma on_message_unknown_type:
  "truthy (js_get data ''type'') \<Longrightarrow> js_get data ''type'' \<notin> known_types \<Longrightarrow>
   \<not> tostring_throws (js_get data ''type'') \<Longrightarrow>
   on_message ws now (Some data) s = s"
  by (cases data) (simp_all add: on_message_def dispatch_def known_types_def)

lemma relay_session:
  assumes "js_get data ''type'' \<in> {JStr ''chat'', JStr ''start'', JStr ''draw'', JStr ''text'',
             JStr ''rectangle'', JStr ''circle'', JStr ''clear''}"
  shows "sessions (on_message ws now (Some data) s) =
           (sessions s)(ws := (sessions s ws)\<lparr>currentRoom := js_get data ''roomId''\<rparr>)"
  using assms
proof (cases rule: relay_cases)
  case chat
  then show ?thesis by (simp add: on_message_chat) (simp add: set_currentRoom_def)
next
  case drawing
  then show ?thesis
    by (cases "drawings s (js_get data ''roomId'')")
       (simp_all add: on_message_drawing handleDrawing_def set_currentRoom_def)
next
  case shape
  then show ?thesis
    by (cases "drawings s (js_get data ''roomId'')")
       (simp_all add: on_message_shape handleShape_def set_currentRoom_def)
qed

section \<open>Leaving and joining a room\<close>

lemma leaveRoom_unregistered:
  "rooms s room = None \<or> users s room = None \<Longrightarrow> leaveRoom ws room uname s = Inr s"
  by (auto simp: leaveRoom_def split: option.splits)

lemma leaveRoom_throws:
  "rooms s room = Some roomWs \<Longrightarrow> users s room = Some roomUsers \<Longrightarrow>
   tostring_throws uname \<or> tostring_throws room \<Longrightarrow>
   leaveRoom ws room uname s =
     Inl (TypeError, s\<lparr>rooms := (rooms s)(room \<mapsto> set_delete ws roomWs),
                         users := (users s)(room \<mapsto> set_delete uname roomUsers)\<rparr>)"
  by (simp add: leaveRoom_def Let_def)

lemma leaveRoom_last:
  "rooms s room = Some roomWs \<Longrightarrow> users s room = Some roomUsers \<Longrightarrow>
   \<not> tostring_throws uname \<Longrightarrow> \<not> tostring_throws room \<Longrightarrow>
   set_delete ws roomWs = [] \<Longrightarrow> set_delete uname roomUsers = [] \<Longrightarrow>
   leaveRoom ws room uname s =
     Inr (s\<lparr>rooms := (rooms s)(room := None), users := (users s)(room := None),
             drawings := (drawings s)(room := None)\<rparr>)"
  by (simp add: leaveRoom_def Let_def)

lemma leaveRoom_others_remain:
  "rooms s room = Some roomWs \<Longrightarrow> users s room = Some roomUsers \<Longrightarrow>
   \<not> tostring_throws uname \<Longrightarrow> \<not> tostring_throws room \<Longrightarrow>
   set_delete ws roomWs \<noteq> [] \<or> set_delete uname roomUsers \<noteq> [] \<Longrightarrow>
   leaveRoom ws room uname s =
     Inr (broadcastToRoomExcept room ws
            (UserLeft (set_delete uname roomUsers) uname room (length (set_delete ws roomWs))
               [Subst uname, Lit '' left the room''])
            (s\<lparr>rooms := (rooms s)(room \<mapsto> set_delete ws roomWs),
               users := (users s)(room \<mapsto> set_delete uname roomUsers)\<rparr>))"
  by (auto simp add: leaveRoom_def Let_def)

lemma leaveRoom_cases:
  obtains (unregistered) "rooms s room = None \<or> users s room = None"
      "leaveRoom ws room uname s = Inr s"
    | (throws) roomWs roomUsers where "rooms s room = Some roomWs" "users s room = Some roomUsers"
      "tostring_throws uname \<or> tostring_throws room"
      "leaveRoom ws room uname s =
        Inl (TypeError, s\<lparr>rooms := (rooms s)(room \<mapsto> set_delete ws roomWs),
                         users := (users s)(room \<mapsto> set_delete uname roomUsers)\<rparr>)"
    | (last) roomWs roomUsers where "rooms s room = Some roomWs" "users s room = Some roomUsers"
      "\<not> tostring_throws uname" "\<not> tostring_throws room"
      "set_delete ws roomWs = []" "set_delete uname roomUsers = []"
      "leaveRoom ws room uname s =
        Inr (s\<lparr>rooms := (rooms s)(room := None), users := (users s)(room := None),
             drawings := (drawings s)(room := None)\<rparr>)"
    | (remain) roomWs roomUsers where "rooms s room = Some roomWs" "users s room = Some roomUsers"
      "\<not> tostring_throws uname" "\<not> tostring_throws room"
      "set_delete ws roomWs \<noteq> [] \<or> set_delete uname roomUsers \<noteq> []"
      "leaveRoom ws room uname s =
        Inr (broadcastToRoomExcept room ws
            (UserLeft (set_delete uname roomUsers) uname room (length (set_delete ws roomWs))
               [Subst uname, Lit '' left the room''])
            (s\<lparr>rooms := (rooms s)(room \<mapsto> set_delete ws roomWs),
               users := (users s)(room \<mapsto> set_delete uname roomUsers)\<rparr>))"
proof (cases "rooms s room")
  case None
  then show ?thesis using unregistered leaveRoom_unregistered by blast
next
  case (Some roomWs)
  note r = this
  show ?thesis
  proof (cases "users s room")
    case None
    then show ?thesis using unregistered leaveRoom_unregistered by blast
  next
    case (Some roomUsers)
    show ?thesis
    proof (cases "tostring_throws uname \<or> tostring_throws room")
      case True
      then show ?thesis using throws[OF r Some] leaveRoom_throws[OF r Some] by blast
    next
      case False
      show ?thesis
      proof (cases "set_delete ws roomWs = [] \<and> set_delete uname roomUsers = []")
        case True
        then show ?thesis using last[OF r Some] leaveRoom_last[OF r Some] False by blast
      next
        case False
        then show ?thesis using remain[OF r Some] leaveRoom_others_remain[OF r Some]
          \<open>\<not> (tostring_throws uname \<or> tostring_throws room)\<close> by blast
      qed
    qed
  qed
qed

text \<open>What a departure sends: notices to other members of the room left, and nothing else.\<close>

lemma leaveRoom_sent:
  "\<exists>e rcpts. outbox (final (leaveRoom ws room uname s)) = outbox s @ map (\<lambda>c. (c, e)) rcpts \<and>
     is_user_left e \<and> ws \<notin> set rcpts \<and> set rcpts \<subseteq> set (members s room)"
proof (cases rule: leaveRoom_cases[of s room ws uname])
  case unregistered
  then show ?thesis
    by (intro exI[of _ "UserLeft [] uname room 0 []"] exI[of _ "[]"]) simp
next
  case (throws roomWs roomUsers)
  then show ?thesis
    by (intro exI[of _ "UserLeft [] uname room 0 []"] exI[of _ "[]"]) simp
next
  case (last roomWs roomUsers)
  then show ?thesis
    by (intro exI[of _ "UserLeft [] uname room 0 []"] exI[of _ "[]"]) simp
next
  case (remain roomWs roomUsers)
  let ?e = "UserLeft (set_delete uname roomUsers) uname room (length (set_delete ws roomWs))
               [Subst uname, Lit '' left the room'']"
  let ?r = "filter (\<lambda>c. c \<noteq> ws \<and> c \<in> ready s) (set_delete ws roomWs)"
  from remain show ?thesis
    by (intro exI[of _ ?e] exI[of _ ?r])
       (auto simp: broadcastToRoomExcept_outbox members_def set_delete_def)
qed

lemma leaveRoom_thrown_sent:
  "leaveRoom ws room uname s = Inl (e, s') \<Longrightarrow> outbox s' = outbox s"
  by (cases rule: leaveRoom_cases[of s room ws uname]) auto

lemma leaveRoom_completes:
  "\<not> tostring_throws uname \<Longrightarrow> \<not> tostring_throws room \<Longrightarrow> \<exists>s'. leaveRoom ws room uname s = Inr s'"
  by (cases rule: leaveRoom_cases[of s room ws uname]) auto

lemma leaveRoom_other_room:
  assumes "room' \<noteq> room"
  shows "rooms (final (leaveRoom ws room uname s)) room' = rooms s room'"
    and "users (final (leaveRoom ws room uname s)) room' = users s room'"
    and "drawings (final (leaveRoom ws room uname s)) room' = drawings s room'"
  using assms by (cases rule: leaveRoom_cases[of s room ws uname]; simp)+

lemma leaveRoom_frame [simp]:
  "sessions (final (leaveRoom ws room uname s)) = sessions s"
  "ready (final (leaveRoom ws room uname s)) = ready s"
  by (cases rule: leaveRoom_cases[of s room ws uname]; simp)+

lemma leaveRoom_keeps_history:
  "rooms (final (leaveRoom ws room uname s)) room' \<noteq> None \<Longrightarrow>
   drawings (final (leaveRoom ws room uname s)) room' = drawings s room'"
  by (cases rule: leaveRoom_cases[of s room ws uname]) (auto split: if_splits)

lemma leaveRoom_creates_nothing:
  "rooms s room' = None \<Longrightarrow> rooms (final (leaveRoom ws room uname s)) room' = None"
  by (cases rule: leaveRoom_cases[of s room ws uname]) (auto split: if_splits)

lemma addUserToRoom_joined:
  "rooms s room = Some roomWs \<Longrightarrow> users s room = Some roomUsers \<Longrightarrow>
   \<not> tostring_throws uname \<Longrightarrow> \<not> tostring_throws room \<Longrightarrow>
   addUserToRoom ws room uname s =
     Inr (broadcastToRoom room
            (UserJoined (drawings s room) (set_add uname roomUsers) uname room
               (length (set_add ws roomWs)) [Subst uname, Lit '' joined the room: '', Subst room])
            (s\<lparr>rooms := (rooms s)(room \<mapsto> set_add ws roomWs),
               users := (users s)(room \<mapsto> set_add uname roomUsers)\<rparr>))"
  by (simp add: addUserToRoom_def Let_def)

lemma addUserToRoom_returns:
  assumes "addUserToRoom ws room uname s = Inr s'"
  obtains roomWs roomUsers where "rooms s room = Some roomWs" "users s room = Some roomUsers"
    "\<not> tostring_throws uname" "\<not> tostring_throws room"
    "s' = broadcastToRoom room
            (UserJoined (drawings s room) (set_add uname roomUsers) uname room
               (length (set_add ws roomWs)) [Subst uname, Lit '' joined the room: '', Subst room])
            (s\<lparr>rooms := (rooms s)(room \<mapsto> set_add ws roomWs),
               users := (users s)(room \<mapsto> set_add uname roomUsers)\<rparr>)"
  using assms by (auto simp: addUserToRoom_def Let_def split: option.splits if_splits)

lemma addUserToRoom_thrown_sent:
  "addUserToRoom ws room uname s = Inl (e, s') \<Longrightarrow> outbox s' = outbox s"
  by (auto simp: addUserToRoom_def Let_def split: option.splits if_splits)

lemma addUserToRoom_sent:
  assumes "addUserToRoom ws room uname s = Inr s'"
  shows "\<exists>n t us. outbox s' = outbox s @
           map (\<lambda>c. (c, UserJoined (drawings s room) us uname room n t))
             (filter (\<lambda>c. c \<in> ready s) (members s' room)) \<and>
         ws \<in> set (members s' room)"
  using assms
proof (cases rule: addUserToRoom_returns)
  case (1 roomWs roomUsers)
  then show ?thesis
    by (auto simp: broadcastToRoom_outbox members_def set_add_def)
qed

lemma members_frame [simp]:
  "members (set_currentRoom ws room s) = members s"
  "members (adopt ws data s) = members s"
  "members (send ws e s) = members s"
  "members (broadcastToRoomExcept room x e s) = members s"
  "members (broadcastToRoom room e s) = members s"
  by (simp_all add: members_def fun_eq_iff)

lemma relay_sent:
  assumes "js_get data ''type'' \<in> {JStr ''chat'', JStr ''start'', JStr ''draw'', JStr ''text'',
             JStr ''rectangle'', JStr ''circle'', JStr ''clear''}"
  shows "\<exists>e rcpts. outbox (on_message ws now (Some data) s) = outbox s @ map (\<lambda>c. (c, e)) rcpts \<and>
           ws \<notin> set rcpts \<and> set rcpts \<subseteq> set (members s (js_get data ''roomId''))"
  using assms
proof (cases rule: relay_cases)
  case chat
  let ?e = "Chat (usernameServer (sessions s ws)) (js_get data ''text'') now"
  let ?r = "filter (\<lambda>c. c \<noteq> ws \<and> c \<in> ready s) (members s (js_get data ''roomId''))"
  from chat show ?thesis
    by (intro exI[of _ ?e] exI[of _ ?r]) (auto simp: on_message_chat broadcastToRoomExcept_outbox)
next
  case drawing
  let ?r = "filter (\<lambda>c. c \<noteq> ws \<and> c \<in> ready s) (members s (js_get data ''roomId''))"
  show ?thesis
  proof (cases "drawings s (js_get data ''roomId'')")
    case None
    with drawing show ?thesis
      by (intro exI[of _ "Verbatim data"] exI[of _ "[]"]) (simp add: on_message_drawing handleDrawing_def)
  next
    case (Some h)
    with drawing show ?thesis
      by (intro exI[of _ "Verbatim data"] exI[of _ ?r])
         (auto simp: on_message_drawing handleDrawing_def broadcastToRoomExcept_outbox members_def)
  qed
next
  case shape
  let ?r = "filter (\<lambda>c. c \<noteq> ws \<and> c \<in> ready s) (members s (js_get data ''roomId''))"
  show ?thesis
  proof (cases "drawings s (js_get data ''roomId'')")
    case None
    with shape show ?thesis
      by (intro exI[of _ "Verbatim data"] exI[of _ "[]"]) (simp add: on_message_shape handleShape_def)
  next
    case (Some h)
    with shape show ?thesis
      by (intro exI[of _ "Verbatim data"] exI[of _ ?r])
         (auto simp: on_message_shape handleShape_def broadcastToRoomExcept_outbox members_def)
  qed
qed


lemma bob_join_call:
  "addUserToRoom 1 (JStr ''r1'') (JStr ''bob'')
     (adopt 1 (room_message 2 ''join_room'' ''r1'' ''bob'') one_room) = Inr two_in_room"
  by (simp add: two_in_room_step on_message_def dispatch_join leave_current_def
      adopt_def handleJoinRoom_def one_room_fields addUserToRoom_def Let_def)

section \<open>The create and join cases of the message handler\<close>

lemma leave_current_sent:
  "\<exists>e rcpts. outbox (final (leave_current ws s)) = outbox s @ map (\<lambda>c. (c, e)) rcpts \<and>
     is_user_left e \<and> ws \<notin> set rcpts \<and>
     set rcpts \<subseteq> set (members s (currentRoom (sessions s ws)))"
proof (cases "truthy (currentRoom (sessions s ws))")
  case True
  then show ?thesis
    using leaveRoom_sent[of ws "currentRoom (sessions s ws)" "usernameServer (sessions s ws)" s]
    by (simp add: leave_current_def)
next
  case False
  then show ?thesis
    by (intro exI[of _ "UserLeft [] JUndefined JUndefined 0 []"] exI[of _ "[]"])
       (simp add: leave_current_def)
qed

lemma leave_current_thrown_sent:
  "leave_current ws s = Inl (e, s') \<Longrightarrow> outbox s' = outbox s"
  by (auto simp: leave_current_def leaveRoom_thrown_sent split: if_splits)

lemma leave_current_completes:
  "\<not> tostring_throws (currentRoom (sessions s ws)) \<Longrightarrow>
   \<not> tostring_throws (usernameServer (sessions s ws)) \<Longrightarrow>
   \<exists>s'. leave_current ws s = Inr s'"
  by (simp add: leave_current_def leaveRoom_completes)

lemma leave_current_other_room:
  assumes "room' \<noteq> currentRoom (sessions s ws)"
  shows "rooms (final (leave_current ws s)) room' = rooms s room'"
    and "users (final (leave_current ws s)) room' = users s room'"
    and "drawings (final (leave_current ws s)) room' = drawings s room'"
  using assms by (simp_all add: leave_current_def leaveRoom_other_room)

lemma leave_current_frame [simp]:
  "sessions (final (leave_current ws s)) = sessions s"
  "ready (final (leave_current ws s)) = ready s"
  by (simp_all add: leave_current_def)

lemma leave_current_keeps_history:
  "rooms (final (leave_current ws s)) room' \<noteq> None \<Longrightarrow>
   drawings (final (leave_current ws s)) room' = drawings s room'"
  using leaveRoom_keeps_history[of ws "currentRoom (sessions s ws)" "usernameServer (sessions s ws)" s room']
  by (simp add: leave_current_def split: if_splits)

lemma leave_current_creates_nothing:
  "rooms s room' = None \<Longrightarrow> rooms (final (leave_current ws s)) room' = None"
  by (simp add: leave_current_def leaveRoom_creates_nothing)

lemma on_message_create:
  "js_get data ''type'' = JStr ''create_room'' \<Longrightarrow>
   on_message ws now (Some data) s =
     (case leave_current ws s of
        Inl (e, s') \<Rightarrow> send ws (ErrorMessage ''Invalid data format'') s'
      | Inr s1 \<Rightarrow>
          (case handleCreateRoom ws (currentRoom (sessions (adopt ws data s1) ws))
                  (usernameServer (sessions (adopt ws data s1) ws)) (adopt ws data s1) of
             Inl (e, s') \<Rightarrow> send ws (ErrorMessage ''Invalid data format'') s'
           | Inr s' \<Rightarrow> s'))"
  by (simp add: on_message_def dispatch_create split: sum.split prod.split)

lemma on_message_join:
  "js_get data ''type'' = JStr ''join_room'' \<Longrightarrow>
   on_message ws now (Some data) s =
     (case leave_current ws s of
        Inl (e, s') \<Rightarrow> send ws (ErrorMessage ''Invalid data format'') s'
      | Inr s1 \<Rightarrow>
          (case handleJoinRoom ws (currentRoom (sessions (adopt ws data s1) ws))
                  (usernameServer (sessions (adopt ws data s1) ws)) (adopt ws data s1) of
             Inl (e, s') \<Rightarrow> send ws (ErrorMessage ''Invalid data format'') s'
           | Inr s' \<Rightarrow> s'))"
  by (simp add: on_message_def dispatch_join split: sum.split prod.split)

lemma adopt_session:
  "truthy (js_get data ''roomId'') \<Longrightarrow> truthy (js_get data ''username'') \<Longrightarrow>
   sessions (adopt ws data s) ws =
     \<lparr>currentRoom = js_get data ''roomId'', usernameServer = js_get data ''username''\<rparr>"
  by (simp add: adopt_def)

lemma handleCreateRoom_exists:
  "truthy room \<Longrightarrow> truthy uname \<Longrightarrow> rooms s room \<noteq> None \<Longrightarrow> \<not> tostring_throws room \<Longrightarrow>
   handleCreateRoom ws room uname s =
     Inr (send ws (RoomAlreadyExist room [Subst room, Lit '' already existed...'']) s)"
  by (auto simp add: handleCreateRoom_def)

lemma handleJoinRoom_absent:
  "truthy room \<Longrightarrow> truthy uname \<Longrightarrow> rooms s room = None \<Longrightarrow> \<not> tostring_throws room \<Longrightarrow>
   handleJoinRoom ws room uname s =
     Inr (send ws (NoRoom [Lit ''Room '', Subst room, Lit '' does not exist'']) s)"
  by (simp add: handleJoinRoom_def)

lemma handleCreateRoom_thrown_sent:
  "handleCreateRoom ws room uname s = Inl (e, s') \<Longrightarrow> outbox s' = outbox s"
  by (auto simp: handleCreateRoom_def split: if_splits dest!: addUserToRoom_thrown_sent)

lemma handleJoinRoom_thrown_sent:
  "handleJoinRoom ws room uname s = Inl (e, s') \<Longrightarrow> outbox s' = outbox s"
  by (auto simp: handleJoinRoom_def split: if_splits dest!: addUserToRoom_thrown_sent)

lemma run_append:
  "run (es @ es') s = (case run es s of Inl x \<Rightarrow> Inl x | Inr s' \<Rightarrow> run es' s')"
  by (induction es arbitrary: s) (auto split: sum.splits)

lemma two_rooms_reached: "run carol_creates_r2 init_server = Inr two_rooms"
  by (simp add: two_rooms_def carol_creates_r2_def run_append two_in_room_reached)

lemma two_rooms_fields:
  "rooms two_rooms = [JStr ''r1'' \<mapsto> [0, 1], JStr ''r2'' \<mapsto> [2]]"
  "users two_rooms = [JStr ''r1'' \<mapsto> [JStr ''alice'', JStr ''bob''], JStr ''r2'' \<mapsto> [JStr ''carol'']]"
  "drawings two_rooms = [JStr ''r1'' \<mapsto> [], JStr ''r2'' \<mapsto> []]"
  "sessions two_rooms 0 = \<lparr>currentRoom = JStr ''r1'', usernameServer = JStr ''alice''\<rparr>"
  "sessions two_rooms (Suc 0) = \<lparr>currentRoom = JStr ''r1'', usernameServer = JStr ''bob''\<rparr>"
  "sessions two_rooms 2 = \<lparr>currentRoom = JStr ''r2'', usernameServer = JStr ''carol''\<rparr>"
  by (simp_all add: two_rooms_def carol_creates_r2_def bob_joins_r1_def alice_creates_r1_def
      room_message_def handler_defs)

lemma two_rooms_ready: "ready two_rooms = {0, 1, 2}"
  by (auto simp add: two_rooms_def carol_creates_r2_def bob_joins_r1_def alice_creates_r1_def
      room_message_def handler_defs)

section \<open>Failing messages\<close>

lemma dispatch_unusable:
  "\<not> truthy (js_get data ''type'') \<Longrightarrow> \<exists>x. dispatch ws now data s = Inl (x, s)"
  by (simp add: dispatch_def)

lemma dispatch_unknown:
  "truthy (js_get data ''type'') \<Longrightarrow> js_get data ''type'' \<notin> known_types \<Longrightarrow>
   dispatch ws now data s =
     (if tostring_throws (js_get data ''type'') then Inl (TypeError, s) else Inr s)"
  by (cases data) (simp_all add: dispatch_def known_types_def)

lemma dispatch_relay:
  assumes "js_get data ''type'' \<in> {JStr ''chat'', JStr ''start'', JStr ''draw'', JStr ''text'',
             JStr ''rectangle'', JStr ''circle'', JStr ''clear''}"
  shows "\<exists>s'. dispatch ws now data s = Inr s'"
  using assms by (cases rule: relay_cases) (simp_all add: dispatch_chat dispatch_drawing dispatch_shape)

lemma type_cases:
  obtains (unusable) "\<not> truthy (js_get data ''type'')"
    | (create) "js_get data ''type'' = JStr ''create_room''"
    | (join) "js_get data ''type'' = JStr ''join_room''"
    | (relay) "js_get data ''type'' \<in> {JStr ''chat'', JStr ''start'', JStr ''draw'', JStr ''text'',
                 JStr ''rectangle'', JStr ''circle'', JStr ''clear''}"
    | (unknown) "truthy (js_get data ''type'')" "js_get data ''type'' \<notin> known_types"
  unfolding known_types_def by blast

lemma addUserToRoom_frame [simp]:
  "ready (final (addUserToRoom ws room uname s)) = ready s"
  "sessions (final (addUserToRoom ws room uname s)) = sessions s"
  "drawings (final (addUserToRoom ws room uname s)) = drawings s"
  by (simp_all add: addUserToRoom_def Let_def split: option.split)

lemma handleCreateRoom_frame [simp]:
  "ready (final (handleCreateRoom ws room uname s)) = ready s"
  "sessions (final (handleCreateRoom ws room uname s)) = sessions s"
  using addUserToRoom_frame(1,2)[of ws room uname
     "s\<lparr>rooms := (rooms s)(room \<mapsto> []), users := (users s)(room \<mapsto> []),
        drawings := (drawings s)(room \<mapsto> [])\<rparr>"]
  by (simp_all add: handleCreateRoom_def)

lemma handleJoinRoom_frame [simp]:
  "ready (final (handleJoinRoom ws room uname s)) = ready s"
  "sessions (final (handleJoinRoom ws room uname s)) = sessions s"
  "drawings (final (handleJoinRoom ws room uname s)) = drawings s"
  by (simp_all add: handleJoinRoom_def)

lemma final_Inl: "r = Inl (e, s') \<Longrightarrow> final r = s'"
  by simp

lemma final_Inr: "r = Inr s' \<Longrightarrow> final r = s'"
  by simp

text \<open>What has been sent, and to whom, when the try block raises.\<close>

lemma dispatch_thrown:
  assumes thrown: "dispatch ws now data s = Inl (x, s')"
  shows "ready s' = ready s \<and>
         (\<exists>e rcpts. outbox s' = outbox s @ map (\<lambda>c. (c, e)) rcpts \<and> is_user_left e \<and>
            ws \<notin> set rcpts \<and> set rcpts \<subseteq> set (members s (currentRoom (sessions s ws))))"
proof -
  have quiet: "?thesis" if "s' = s"
    using that
    by (intro conjI exI[of _ "UserLeft [] JUndefined JUndefined 0 []"] exI[of _ "[]"]) simp_all
  have after_leave: "?thesis"
    if l: "leave_current ws s = Inr s1" and o: "outbox s' = outbox s1" and r: "ready s' = ready s1"
    for s1
  proof -
    have s1: "s1 = final (leave_current ws s)" by (simp add: l)
    from leave_current_sent[of ws s] o r show ?thesis
      unfolding s1 by simp
  qed
  show ?thesis
  proof (cases rule: type_cases[of data])
    case unusable
    with thrown dispatch_unusable[of data ws now s] have "s' = s"
      by auto
    then show ?thesis by (rule quiet)
  next
    case create
    show ?thesis
    proof (cases "leave_current ws s")
      case (Inl y)
      with thrown create have y: "leave_current ws s = Inl (x, s')"
        by (simp add: dispatch_create)
      from leave_current_thrown_sent[OF y] leave_current_frame(2)[of ws s] y
      show ?thesis
        by (intro conjI exI[of _ "UserLeft [] JUndefined JUndefined 0 []"] exI[of _ "[]"]) simp_all
    next
      case (Inr s1)
      let ?s2 = "adopt ws data s1"
      from thrown create Inr
      have h: "handleCreateRoom ws (currentRoom (sessions ?s2 ws)) (usernameServer (sessions ?s2 ws)) ?s2
                = Inl (x, s')"
        by (simp add: dispatch_create)
      have "outbox s' = outbox s1"
        using handleCreateRoom_thrown_sent[OF h] by simp
      moreover have "ready s' = ready s1"
        using handleCreateRoom_frame(1)[of ws "currentRoom (sessions ?s2 ws)"
            "usernameServer (sessions ?s2 ws)" ?s2] h by simp
      ultimately show ?thesis using after_leave[OF Inr] by blast
    qed
  next
    case join
    show ?thesis
    proof (cases "leave_current ws s")
      case (Inl y)
      with thrown join have y: "leave_current ws s = Inl (x, s')"
        by (simp add: dispatch_join)
      from leave_current_thrown_sent[OF y] leave_current_frame(2)[of ws s] y
      show ?thesis
        by (intro conjI exI[of _ "UserLeft [] JUndefined JUndefined 0 []"] exI[of _ "[]"]) simp_all
    next
      case (Inr s1)
      let ?s2 = "adopt ws data s1"
      from thrown join Inr
      have h: "handleJoinRoom ws (currentRoom (sessions ?s2 ws)) (usernameServer (sessions ?s2 ws)) ?s2
                = Inl (x, s')"
        by (simp add: dispatch_join)
      have "outbox s' = outbox s1"
        using handleJoinRoom_thrown_sent[OF h] by simp
      moreover have "ready s' = ready s1"
        using handleJoinRoom_frame(1)[of ws "currentRoom (sessions ?s2 ws)"
            "usernameServer (sessions ?s2 ws)" ?s2] h by simp
      ultimately show ?thesis using after_leave[OF Inr] by blast
    qed
  next
    case relay
    with thrown dispatch_relay[of data ws now s] show ?thesis by auto
  next
    case unknown
    with thrown have "s' = s"
      by (simp add: dispatch_unknown split: if_splits)
    then show ?thesis by (rule quiet)
  qed
qed

lemma hostile_create_fields [simp]:
  "js_get hostile_create ''type'' = JStr ''create_room''"
  "js_get hostile_create ''roomId'' = JStr ''r2''"
  "js_get hostile_create ''username'' = JObj 4 [(''toString'', JNum (Finite 1))]"
  by (simp_all add: hostile_create_def)

lemma hostile_create_dispatch:
  "dispatch 0 3 hostile_create two_in_room =
     Inl (TypeError,
       two_in_room\<lparr>
         rooms := [JStr ''r1'' \<mapsto> [1], JStr ''r2'' \<mapsto> [0]],
         users := [JStr ''r1'' \<mapsto> [JStr ''bob''],
                   JStr ''r2'' \<mapsto> [JObj 4 [(''toString'', JNum (Finite 1))]]],
         drawings := [JStr ''r1'' \<mapsto> [], JStr ''r2'' \<mapsto> []],
         sessions := (sessions two_in_room)
           (0 := \<lparr>currentRoom = JStr ''r2'',
                   usernameServer = JObj 4 [(''toString'', JNum (Finite 1))]\<rparr>),
         outbox := outbox two_in_room @
           [(1, UserLeft [JStr ''bob''] (JStr ''alice'') (JStr ''r1'') 1
                  [Subst (JStr ''alice''), Lit '' left the room''])]\<rparr>)"
  by (simp add: dispatch_create leave_current_def two_in_room_fields two_in_room_ready
      leaveRoom_def set_delete_def Let_def broadcastToRoomExcept_def adopt_def
      handleCreateRoom_def addUserToRoom_def set_add_def)

section \<open>Removal of rooms\<close>

lemma set_delete_single [simp]: "set_delete x [x] = []"
  by (simp add: set_delete_def)

lemma set_delete_not_member [simp]: "x \<notin> set (set_delete x xs)"
  by (simp add: set_delete_def)

lemma r1_removed_reached: "run alice_leaves init_server = Inr r1_removed"
  by (simp add: r1_removed_def alice_leaves_def alice_creates_r1_def room_message_def handler_defs)

lemma r1_removed_fields:
  "rooms r1_removed = Map.empty"
  "users r1_removed = Map.empty"
  "drawings r1_removed = Map.empty"
  "sessions r1_removed (Suc 0) = \<lparr>currentRoom = JUndefined, usernameServer = JUndefined\<rparr>"
  "outbox r1_removed = outbox one_room"
  by (simp_all add: r1_removed_def one_room_def alice_leaves_def alice_creates_r1_def
      room_message_def handler_defs)

lemma leaveRoom_removal:
  assumes "rooms s k = Some m" and "rooms (final (leaveRoom ws room uname s)) k = None"
  shows "k = room \<and> set_delete ws m = [] \<and>
         (\<exists>us. users s k = Some us \<and> set_delete uname us = [])"
  using assms
  by (cases rule: leaveRoom_cases[of s room ws uname]) (auto split: if_splits)

lemma leave_current_removal:
  assumes "rooms s k = Some m" and "rooms (final (leave_current ws s)) k = None"
  shows "k = currentRoom (sessions s ws) \<and> set_delete ws m = [] \<and>
         (\<exists>us. users s k = Some us \<and> set_delete (usernameServer (sessions s ws)) us = [])"
proof (cases "truthy (currentRoom (sessions s ws))")
  case True
  with assms(2) have "rooms (final (leaveRoom ws (currentRoom (sessions s ws))
      (usernameServer (sessions s ws)) s)) k = None"
    by (simp add: leave_current_def)
  from leaveRoom_removal[OF assms(1) this] show ?thesis .
next
  case False
  with assms show ?thesis by (simp add: leave_current_def)
qed

lemma addUserToRoom_keeps:
  "rooms s k \<noteq> None \<Longrightarrow> rooms (final (addUserToRoom ws room uname s)) k \<noteq> None"
  by (auto simp: addUserToRoom_def Let_def split: option.splits)

lemma handleCreateRoom_keeps:
  "rooms s k \<noteq> None \<Longrightarrow> rooms (final (handleCreateRoom ws room uname s)) k \<noteq> None"
  using addUserToRoom_keeps[of "s\<lparr>rooms := (rooms s)(room \<mapsto> []), users := (users s)(room \<mapsto> []),
        drawings := (drawings s)(room \<mapsto> [])\<rparr>" k ws room uname]
  by (auto simp: handleCreateRoom_def split: if_splits)

lemma handleJoinRoom_keeps:
  "rooms s k \<noteq> None \<Longrightarrow> rooms (final (handleJoinRoom ws room uname s)) k \<noteq> None"
  using addUserToRoom_keeps[of s k ws room uname]
  by (auto simp: handleJoinRoom_def)

lemma relay_rooms:
  assumes "js_get data ''type'' \<in> {JStr ''chat'', JStr ''start'', JStr ''draw'', JStr ''text'',
             JStr ''rectangle'', JStr ''circle'', JStr ''clear''}"
  shows "rooms (on_message ws now (Some data) s) = rooms s"
    and "users (on_message ws now (Some data) s) = users s"
    and "ready (on_message ws now (Some data) s) = ready s"
proof -
  have "rooms (on_message ws now (Some data) s) = rooms s \<and>
        users (on_message ws now (Some data) s) = users s \<and>
        ready (on_message ws now (Some data) s) = ready s"
    using assms
  proof (cases rule: relay_cases)
    case chat
    then show ?thesis by (simp add: on_message_chat)
  next
    case drawing
    then show ?thesis
      by (cases "drawings s (js_get data ''roomId'')") (simp_all add: on_message_drawing handleDrawing_def)
  next
    case shape
    then show ?thesis
      by (cases "drawings s (js_get data ''roomId'')") (simp_all add: on_message_shape handleShape_def)
  qed
  then show "rooms (on_message ws now (Some data) s) = rooms s"
    and "users (on_message ws now (Some data) s) = users s"
    and "ready (on_message ws now (Some data) s) = ready s" by simp_all
qed

text \<open>A room that is registered before a message and not after it was emptied by the
  sender's departure from it.\<close>

lemma on_message_removal:
  assumes present: "rooms s k = Some m" and absent: "rooms (on_message ws now raw s) k = None"
  shows "k = currentRoom (sessions s ws) \<and> set_delete ws m = [] \<and>
         (\<exists>us. users s k = Some us \<and> set_delete (usernameServer (sessions s ws)) us = [])"
proof (cases raw)
  case None
  with present absent show ?thesis by (simp add: on_message_def)
next
  case (Some data)
  have after_leave: ?thesis if "rooms (final (leave_current ws s)) k = None"
    using leave_current_removal[OF present that] .
  show ?thesis
  proof (cases rule: type_cases[of data])
    case unusable
    with present absent Some show ?thesis by (simp add: on_message_missing_type)
  next
    case create
    show ?thesis
    proof (cases "leave_current ws s")
      case (Inl x)
      with absent Some create have "rooms (final (leave_current ws s)) k = None"
        by (cases x) (simp add: on_message_create)
      then show ?thesis by (rule after_leave)
    next
      case (Inr s1)
      let ?s2 = "adopt ws data s1"
      let ?h = "handleCreateRoom ws (currentRoom (sessions ?s2 ws)) (usernameServer (sessions ?s2 ws)) ?s2"
      have "on_message ws now raw s = final ?h \<or>
            on_message ws now raw s = send ws (ErrorMessage ''Invalid data format'') (final ?h)"
        using Some create Inr by (cases ?h) (auto simp: on_message_create)
      with absent have "rooms (final ?h) k = None" by auto
      then have "rooms ?s2 k = None" using handleCreateRoom_keeps by blast
      then have "rooms (final (leave_current ws s)) k = None" using Inr by simp
      then show ?thesis by (rule after_leave)
    qed
  next
    case join
    show ?thesis
    proof (cases "leave_current ws s")
      case (Inl x)
      with absent Some join have "rooms (final (leave_current ws s)) k = None"
        by (cases x) (simp add: on_message_join)
      then show ?thesis by (rule after_leave)
    next
      case (Inr s1)
      let ?s2 = "adopt ws data s1"
      let ?h = "handleJoinRoom ws (currentRoom (sessions ?s2 ws)) (usernameServer (sessions ?s2 ws)) ?s2"
      have "on_message ws now raw s = final ?h \<or>
            on_message ws now raw s = send ws (ErrorMessage ''Invalid data format'') (final ?h)"
        using Some join Inr by (cases ?h) (auto simp: on_message_join)
      with absent have "rooms (final ?h) k = None" by auto
      then have "rooms ?s2 k = None" using handleJoinRoom_keeps by blast
      then have "rooms (final (leave_current ws s)) k = None" using Inr by simp
      then show ?thesis by (rule after_leave)
    qed
  next
    case relay
    from relay_rooms(1)[OF relay, of ws now s] present absent Some show ?thesis by simp
  next
    case unknown
    then have "on_message ws now raw s = s \<or>
               on_message ws now raw s = send ws (ErrorMessage ''Invalid data format'') s"
      by (simp add: Some on_message_def dispatch_unknown)
    with present absent show ?thesis by auto
  qed
qed

lemma departure_outcome:
  assumes reg: "rooms s room = Some roomWs" "users s room = Some roomUsers"
    and strings: "\<not> tostring_throws uname" "\<not> tostring_throws room"
  shows "\<exists>s'. leaveRoom ws room uname s = Inr s' \<and>
           (rooms s' room = None) = (set_delete ws roomWs = [] \<and> set_delete uname roomUsers = []) \<and>
           (rooms s' room = None \<longrightarrow> users s' room = None \<and> drawings s' room = None) \<and>
           (rooms s' room \<noteq> None \<longrightarrow>
              rooms s' room = Some (set_delete ws roomWs) \<and>
              users s' room = Some (set_delete uname roomUsers) \<and>
              drawings s' room = drawings s room)"
proof (cases "set_delete ws roomWs = [] \<and> set_delete uname roomUsers = []")
  case True
  with leaveRoom_last[OF reg strings, of ws] show ?thesis by simp
next
  case False
  with leaveRoom_others_remain[OF reg strings, of ws] show ?thesis by auto
qed

lemma step_removal:
  assumes present: "rooms s k = Some m" and absent: "rooms (final (step ev s)) k = None"
  shows "\<exists>ws. k = currentRoom (sessions s ws) \<and> set_delete ws m = [] \<and>
           (\<exists>us. users s k = Some us \<and> set_delete (usernameServer (sessions s ws)) us = [])"
proof (cases ev)
  case (Message ws now raw)
  with absent have "rooms (on_message ws now raw s) k = None" by simp
  from on_message_removal[OF present this] show ?thesis by blast
next
  case (Close ws)
  with absent have "rooms (final (leave_current ws s)) k = None" by (simp add: on_close_def)
  from leave_current_removal[OF present this] show ?thesis by blast
next
  case (ReadyState ws b)
  with present absent show ?thesis by simp
qed

lemma join_absent_room:
  assumes ty: "js_get data ''type'' = JStr ''join_room''"
    and rid: "js_get data ''roomId'' = room" and un: "js_get data ''username'' = uname"
    and named: "truthy room" "truthy uname"
    and gone: "rooms s room = None"
    and strings: "\<not> tostring_throws room" "\<not> tostring_throws (currentRoom (sessions s ws))"
      "\<not> tostring_throws (usernameServer (sessions s ws))"
  shows "rooms (on_message ws now (Some data) s) room = None \<and>
         (\<exists>e rcpts. outbox (on_message ws now (Some data) s) =
            outbox s @ map (\<lambda>c. (c, e)) rcpts @
              [(ws, NoRoom [Lit ''Room '', Subst room, Lit '' does not exist''])] \<and>
            is_user_left e \<and> ws \<notin> set rcpts \<and>
            set rcpts \<subseteq> set (members s (currentRoom (sessions s ws))))"
proof -
  obtain s1 where l: "leave_current ws s = Inr s1"
    using leave_current_completes[OF strings(2,3)] by blast
  have s1: "s1 = final (leave_current ws s)" by (simp add: l)
  have gone1: "rooms s1 room = None"
    using leave_current_creates_nothing[OF gone, of ws] by (simp add: s1)
  obtain e rcpts where sent: "outbox s1 = outbox s @ map (\<lambda>c. (c, e)) rcpts"
    "is_user_left e" "ws \<notin> set rcpts" "set rcpts \<subseteq> set (members s (currentRoom (sessions s ws)))"
    using leave_current_sent[of ws s] unfolding s1 by blast
  let ?s2 = "adopt ws data s1"
  have sess: "sessions ?s2 ws = \<lparr>currentRoom = room, usernameServer = uname\<rparr>"
    using adopt_session[of data ws s1] named rid un by simp
  have h: "handleJoinRoom ws room uname ?s2 =
      Inr (send ws (NoRoom [Lit ''Room '', Subst room, Lit '' does not exist'']) ?s2)"
    using handleJoinRoom_absent[of room uname ?s2 ws] named gone1 strings(1) by simp
  have res: "on_message ws now (Some data) s =
      send ws (NoRoom [Lit ''Room '', Subst room, Lit '' does not exist'']) ?s2"
    by (simp add: on_message_join[OF ty] l sess h)
  show ?thesis
    unfolding res using gone1 sent
    by (simp only: send_frame adopt_frame simp_thms)
       (intro exI[of _ e] exI[of _ rcpts], simp)
qed

section \<open>The drawing history and its replay\<close>

lemma sent_between_append [simp]: "outbox s' = outbox s @ new \<Longrightarrow> sent_between s s' = new"
  by (simp add: sent_between_def)

lemma drawing_step:
  assumes ev: "drawing_event room ev" and hist: "drawings s room = Some h"
  shows "\<exists>s'. step ev s = Inr s' \<and> drawings s' room = Some (spec_replay h [payload ev]) \<and>
           rooms s' = rooms s \<and> users s' = users s \<and> ready s' = ready s"
proof -
  from ev obtain ws now data where e: "ev = Message ws now (Some data)"
    by (cases "(room, ev)" rule: drawing_event.cases) auto
  from ev e have rid: "js_get data ''roomId'' = room" by simp
  from ev e consider
      (drawing) "js_get data ''type'' \<in> {JStr ''start'', JStr ''draw''}"
    | (shape) "js_get data ''type'' \<in> {JStr ''text'', JStr ''rectangle'', JStr ''circle''}"
    | (clear) "js_get data ''type'' = JStr ''clear''"
    by auto
  then show ?thesis
  proof cases
    case drawing
    then have "truthy (js_get data ''type'')" "js_get data ''type'' \<noteq> JStr ''clear''" by auto
    with drawing hist rid show ?thesis
      by (simp add: e on_message_drawing handleDrawing_def)
  next
    case shape
    then have ne: "js_get data ''type'' \<noteq> JStr ''clear''" by auto
    from shape have "js_get data ''type'' \<in> {JStr ''text'', JStr ''rectangle'', JStr ''circle'', JStr ''clear''}"
      by auto
    with ne hist rid show ?thesis
      by (simp add: e on_message_shape handleShape_def)
  next
    case clear
    with hist rid show ?thesis
      by (simp add: e on_message_shape handleShape_def)
  qed
qed

lemma replay_append: "spec_replay h (ds @ ds') = spec_replay (spec_replay h ds) ds'"
  by (induction ds arbitrary: h) simp_all

lemma drawing_run:
  assumes "list_all (drawing_event room) es" and "drawings s room = Some h"
  shows "\<exists>s'. run es s = Inr s' \<and> drawings s' room = Some (spec_replay h (map payload es)) \<and>
           rooms s' = rooms s \<and> users s' = users s \<and> ready s' = ready s"
  using assms
proof (induction es arbitrary: s h)
  case Nil
  then show ?case by simp
next
  case (Cons ev es)
  from Cons.prems have ev: "drawing_event room ev" and rest: "list_all (drawing_event room) es"
    by simp_all
  from drawing_step[OF ev Cons.prems(2)] obtain s1 where
    s1: "step ev s = Inr s1" "drawings s1 room = Some (spec_replay h [payload ev])"
      "rooms s1 = rooms s" "users s1 = users s" "ready s1 = ready s"
    by blast
  from Cons.IH[OF rest s1(2)] obtain s' where
    s': "run es s1 = Inr s'" "drawings s' room = Some (spec_replay (spec_replay h [payload ev]) (map payload es))"
      "rooms s' = rooms s1" "users s' = users s1" "ready s' = ready s1"
    by blast
  show ?case
    using s1 s' by (intro exI[of _ s']) simp
qed

lemma replay_no_clear:
  "\<forall>d \<in> set ds. js_get d ''type'' \<noteq> JStr ''clear'' \<Longrightarrow> spec_replay h ds = h @ ds"
  by (induction ds arbitrary: h) simp_all

lemma replay_clear_last:
  "ds \<noteq> [] \<Longrightarrow> js_get (last ds) ''type'' = JStr ''clear'' \<Longrightarrow> spec_replay h ds = []"
proof (induction ds arbitrary: h)
  case Nil
  then show ?case by simp
next
  case (Cons d ds)
  then show ?case by (cases ds) simp_all
qed

lemma addUserToRoom_announces:
  "\<exists>new. outbox (final (addUserToRoom ws room uname s)) = outbox s @ new \<and>
     (\<forall>c d us u k n t. (c, UserJoined d us u k n t) \<in> set new \<longrightarrow>
        k = room \<and> u = uname \<and> d = drawings s room \<and> rooms s room \<noteq> None)"
proof (cases "addUserToRoom ws room uname s")
  case (Inl x)
  then obtain e s' where "addUserToRoom ws room uname s = Inl (e, s')" by (cases x) auto
  with addUserToRoom_thrown_sent[OF this] show ?thesis
    by (intro exI[of _ "[]"]) simp
next
  case (Inr s')
  then show ?thesis
  proof (cases rule: addUserToRoom_returns)
    case (1 roomWs roomUsers)
    then show ?thesis
      using Inr by (auto simp: broadcastToRoom_outbox)
  qed
qed

lemma handleJoinRoom_announces:
  "\<exists>new. outbox (final (handleJoinRoom ws room uname s)) = outbox s @ new \<and>
     (\<forall>c d us u k n t. (c, UserJoined d us u k n t) \<in> set new \<longrightarrow>
        k = room \<and> u = uname \<and> d = drawings s room \<and> rooms s room \<noteq> None)"
proof -
  consider (missing) "\<not> truthy room \<or> \<not> truthy uname"
    | (absent) "truthy room" "truthy uname" "rooms s room = None"
    | (join) "truthy room" "truthy uname" "rooms s room \<noteq> None"
    by blast
  then show ?thesis
  proof cases
    case missing
    then show ?thesis
      by (intro exI[of _ "[(ws, ErrorMsg ''Missing room ID or username'')]"])
         (auto simp: handleJoinRoom_def)
  next
    case absent
    show ?thesis
    proof (cases "tostring_throws room")
      case True
      with absent show ?thesis
        by (intro exI[of _ "[]"]) (simp add: handleJoinRoom_def)
    next
      case False
      with absent show ?thesis
        by (intro exI[of _ "[(ws, NoRoom [Lit ''Room '', Subst room, Lit '' does not exist''])]"])
           (simp add: handleJoinRoom_def)
    qed
  next
    case join
    then have "handleJoinRoom ws room uname s = addUserToRoom ws room uname s"
      by (auto simp add: handleJoinRoom_def)
    then show ?thesis using addUserToRoom_announces[of ws room uname s] by simp
  qed
qed

lemma join_announcement:
  assumes ty: "js_get j ''type'' = JStr ''join_room''"
    and got: "(c', UserJoined d us u k n t) \<in> set (sent_between s (on_message c now (Some j) s))"
  shows "d = drawings s k"
proof (cases "leave_current c s")
  case (Inl x)
  then obtain e s' where l: "leave_current c s = Inl (e, s')" by (cases x) auto
  have "outbox (on_message c now (Some j) s) = outbox s @ [(c, ErrorMessage ''Invalid data format'')]"
    using leave_current_thrown_sent[OF l] by (simp add: on_message_join[OF ty] l)
  with got show ?thesis by simp
next
  case (Inr s1)
  have s1: "s1 = final (leave_current c s)" by (simp add: Inr)
  obtain e rcpts where left: "outbox s1 = outbox s @ map (\<lambda>c. (c, e)) rcpts" "is_user_left e"
    using leave_current_sent[of c s] unfolding s1 by blast
  let ?s2 = "adopt c j s1"
  let ?room = "currentRoom (sessions ?s2 c)"
  let ?h = "handleJoinRoom c ?room (usernameServer (sessions ?s2 c)) ?s2"
  obtain new where new: "outbox (final ?h) = outbox ?s2 @ new"
    "\<forall>c d us u k n t. (c, UserJoined d us u k n t) \<in> set new \<longrightarrow>
        k = ?room \<and> d = drawings ?s2 ?room \<and> rooms ?s2 ?room \<noteq> None"
    using handleJoinRoom_announces[of c ?room "usernameServer (sessions ?s2 c)" ?s2] by blast
  have res: "on_message c now (Some j) s = final ?h \<or>
             on_message c now (Some j) s = send c (ErrorMessage ''Invalid data format'') (final ?h)"
    using Inr by (cases ?h) (auto simp: on_message_join[OF ty])
  have "sent_between s (on_message c now (Some j) s) = map (\<lambda>c. (c, e)) rcpts @ new \<or>
        sent_between s (on_message c now (Some j) s) =
          map (\<lambda>c. (c, e)) rcpts @ new @ [(c, ErrorMessage ''Invalid data format'')]"
    using res left(1) new(1) by auto
  with got left(2) have "(c', UserJoined d us u k n t) \<in> set new"
    by (cases e) auto
  with new(2) have "k = ?room \<and> d = drawings ?s2 ?room \<and> rooms ?s2 ?room \<noteq> None"
    by blast
  then have k: "k = ?room" "d = drawings s1 k" "rooms s1 k \<noteq> None"
    by simp_all
  with leave_current_keeps_history[of c s k] show ?thesis
    by (simp add: s1)
qed

lemma join_delivers:
  assumes ty: "js_get j ''type'' = JStr ''join_room''"
    and rid: "js_get j ''roomId'' = room" and un: "js_get j ''username'' = uname"
    and named: "truthy room" "truthy uname" "\<not> tostring_throws room" "\<not> tostring_throws uname"
    and reg: "rooms s room \<noteq> None" "users s room \<noteq> None"
    and other: "currentRoom (sessions s c) \<noteq> room"
    and strings: "\<not> tostring_throws (currentRoom (sessions s c))"
      "\<not> tostring_throws (usernameServer (sessions s c))"
    and opened: "c \<in> ready s"
  shows "\<exists>us n t. (c, UserJoined (drawings s room) us uname room n t)
           \<in> set (sent_between s (on_message c now (Some j) s))"
proof -
  obtain s1 where l: "leave_current c s = Inr s1"
    using leave_current_completes[OF strings] by blast
  have s1: "s1 = final (leave_current c s)" by (simp add: l)
  have same: "rooms s1 room = rooms s room" "users s1 room = users s room"
    "drawings s1 room = drawings s room"
    using leave_current_other_room[of room s c] other by (simp_all add: s1)
  have rdy: "ready s1 = ready s" by (simp add: s1)
  obtain e rcpts where left: "outbox s1 = outbox s @ map (\<lambda>c. (c, e)) rcpts"
    using leave_current_sent[of c s] unfolding s1 by blast
  let ?s2 = "adopt c j s1"
  have sess: "sessions ?s2 c = \<lparr>currentRoom = room, usernameServer = uname\<rparr>"
    using adopt_session[of j c s1] named rid un by simp
  from reg same obtain roomWs roomUsers where
    r2: "rooms ?s2 room = Some roomWs" "users ?s2 room = Some roomUsers"
    by auto
  have h: "handleJoinRoom c room uname ?s2 = addUserToRoom c room uname ?s2"
    using named r2 by (simp add: handleJoinRoom_def)
  note a = addUserToRoom_joined[OF r2 named(4,3), of c]
  have res: "on_message c now (Some j) s = final (addUserToRoom c room uname ?s2)"
    by (simp add: on_message_join[OF ty] l sess h a)
  have "outbox (on_message c now (Some j) s) =
      outbox s @ map (\<lambda>c. (c, e)) rcpts @
        map (\<lambda>x. (x, UserJoined (drawings s room) (set_add uname roomUsers) uname room
               (length (set_add c roomWs)) [Subst uname, Lit '' joined the room: '', Subst room]))
          (filter (\<lambda>x. x \<in> ready s) (set_add c roomWs))"
    unfolding res a
    by (simp add: broadcastToRoom_outbox members_def left same rdy)
  then show ?thesis
    using opened
    by (intro exI[of _ "set_add uname roomUsers"] exI[of _ "length (set_add c roomWs)"]
          exI[of _ "[Subst uname, Lit '' joined the room: '', Subst room]"])
       (auto simp: set_add_def)
qed

lemma alice_draws_events: "list_all (drawing_event (JStr ''r1'')) alice_draws"
  by (simp add: alice_draws_def plain_message_def)

lemma alice_draws_payloads:
  "map payload alice_draws =
     [plain_message 2 ''draw'' ''r1'', plain_message 3 ''clear'' ''r1'',
      plain_message 4 ''rectangle'' ''r1'']"
  by (simp add: alice_draws_def)

lemma painted_step: "run alice_draws one_room = Inr painted"
  using drawing_run[OF alice_draws_events, of one_room "[]"]
  by (auto simp: painted_def run_append one_room_reached one_room_fields)

lemma painted_reached: "run (alice_creates_r1 @ alice_draws) init_server = Inr painted"
  by (simp add: run_append one_room_reached painted_step)

lemma painted_fields:
  "rooms painted = [JStr ''r1'' \<mapsto> [0]]"
  "users painted = [JStr ''r1'' \<mapsto> [JStr ''alice'']]"
  "drawings painted = [JStr ''r1'' \<mapsto> [plain_message 4 ''rectangle'' ''r1'']]"
  "sessions painted (Suc 0) = \<lparr>currentRoom = JUndefined, usernameServer = JUndefined\<rparr>"
  "outbox painted = outbox one_room"
  by (simp_all add: painted_def alice_draws_def one_room_def alice_creates_r1_def
      room_message_def plain_message_def handler_defs)

lemma painted_ready: "ready painted = {0, 1}"
  using drawing_run[OF alice_draws_events, of one_room "[]"]
  by (simp add: painted_step one_room_fields one_room_ready)

lemma bob_joins_painted:
  "sent_between painted (on_message 1 5 (Some (room_message 5 ''join_room'' ''r1'' ''bob'')) painted) =
     [(0, UserJoined (Some [plain_message 4 ''rectangle'' ''r1'']) [JStr ''alice'', JStr ''bob'']
            (JStr ''bob'') (JStr ''r1'') 2
            [Subst (JStr ''bob''), Lit '' joined the room: '', Subst (JStr ''r1'')]),
      (1, UserJoined (Some [plain_message 4 ''rectangle'' ''r1'']) [JStr ''alice'', JStr ''bob'']
            (JStr ''bob'') (JStr ''r1'') 2
            [Subst (JStr ''bob''), Lit '' joined the room: '', Subst (JStr ''r1'')])]"
  by (rule sent_between_append)
     (simp add: on_message_join leave_current_def painted_fields painted_ready adopt_def
        handleJoinRoom_def addUserToRoom_def Let_def set_add_def broadcastToRoom_def)

section \<open>Membership in at most one room\<close>

lemma tidyI:
  assumes "registry_ok s" and "\<And>k. rooms s k \<noteq> None \<Longrightarrow> truthy k"
    and "\<And>c k. c \<in> set (members s k) \<Longrightarrow> currentRoom (sessions s c) = k"
  shows "tidy s"
  using assms unfolding tidy_def by blast

lemma tidyD:
  assumes "tidy s"
  shows "registry_ok s" and "rooms s k \<noteq> None \<Longrightarrow> truthy k"
    and "c \<in> set (members s k) \<Longrightarrow> currentRoom (sessions s c) = k"
  using assms unfolding tidy_def by blast+

lemma members_registered: "c \<in> set (members s k) \<Longrightarrow> rooms s k \<noteq> None"
  by (cases "rooms s k") (simp_all add: members_def)

lemma leaveRoom_members:
  "set (members (final (leaveRoom ws room uname s)) k) \<subseteq> set (members s k)"
  by (cases rule: leaveRoom_cases[of s room ws uname])
     (auto simp: members_def set_delete_def split: option.splits if_splits)

lemma leaveRoom_removes:
  assumes "users s room \<noteq> None"
  shows "ws \<notin> set (members (final (leaveRoom ws room uname s)) room)"
  using assms
  by (cases rule: leaveRoom_cases[of s room ws uname])
     (auto simp: members_def set_delete_def split: option.splits if_splits)

lemma leaveRoom_keys:
  "rooms (final (leaveRoom ws room uname s)) k \<noteq> None \<Longrightarrow> rooms s k \<noteq> None"
  using leaveRoom_creates_nothing[of s k ws room uname] by (cases "rooms s k") simp_all

text \<open>After the departure from the current room of a tidy state, the connection is in no room.\<close>

lemma tidy_leave_current:
  assumes t: "tidy s"
  shows "tidy (final (leave_current ws s))"
    and "ws \<notin> set (members (final (leave_current ws s)) k)"
proof -
  let ?cur = "currentRoom (sessions s ws)"
  let ?s1 = "final (leave_current ws s)"
  have sub: "set (members ?s1 k') \<subseteq> set (members s k')" for k'
    using leaveRoom_members[of ws ?cur "usernameServer (sessions s ws)" s k']
    by (simp add: leave_current_def)
  have keys: "rooms ?s1 k' \<noteq> None \<Longrightarrow> rooms s k' \<noteq> None" for k'
    using leave_current_creates_nothing[of s k' ws] by (cases "rooms s k'") simp_all
  show "tidy ?s1"
  proof (rule tidyI)
    show "registry_ok ?s1" using tidyD(1)[OF t] by (rule registry_ok_leave_current)
    show "truthy k'" if "rooms ?s1 k' \<noteq> None" for k'
      using tidyD(2)[OF t keys[OF that]] .
    show "currentRoom (sessions ?s1 c) = k'" if "c \<in> set (members ?s1 k')" for c k'
      using tidyD(3)[OF t, of c k'] sub[of k'] that by auto
  qed
  show "ws \<notin> set (members ?s1 k)"
  proof
    assume in1: "ws \<in> set (members ?s1 k)"
    with sub have in0: "ws \<in> set (members s k)" by blast
    then have k: "?cur = k" using tidyD(3)[OF t] by blast
    from in0 have reg: "rooms s k \<noteq> None" by (rule members_registered)
    then have tr: "truthy k" using tidyD(2)[OF t] by blast
    from reg have "users s k \<noteq> None" using registry_okD(1)[OF tidyD(1)[OF t], of k] by simp
    from leaveRoom_removes[OF this, of ws "usernameServer (sessions s ws)"] in1 k tr
    show False by (simp add: leave_current_def)
  qed
qed

lemma tidy_cong:
  "rooms s' = rooms s \<Longrightarrow> users s' = users s \<Longrightarrow> drawings s' = drawings s \<Longrightarrow>
   sessions s' = sessions s \<Longrightarrow> tidy s' = tidy s"
  by (simp add: tidy_def registry_ok_def members_def)

lemma tidy_send [simp]: "tidy (send ws e s) = tidy s"
  by (rule tidy_cong) simp_all

lemma addUserToRoom_members:
  "set (members (final (addUserToRoom ws room uname s)) k) \<subseteq>
     (if k = room then insert ws (set (members s k)) else set (members s k))"
  by (auto simp: addUserToRoom_def Let_def members_def set_add_def split: option.splits if_splits)

lemma addUserToRoom_keys:
  "rooms (final (addUserToRoom ws room uname s)) k \<noteq> None \<Longrightarrow> rooms s k \<noteq> None"
  by (auto simp: addUserToRoom_def Let_def split: option.splits if_splits)

lemma handleCreateRoom_members:
  "set (members (final (handleCreateRoom ws room uname s)) k) \<subseteq>
     (if k = room then insert ws (set (members s k)) else set (members s k))"
proof -
  let ?s0 = "s\<lparr>rooms := (rooms s)(room \<mapsto> []), users := (users s)(room \<mapsto> []),
               drawings := (drawings s)(room \<mapsto> [])\<rparr>"
  have fresh: "set (members ?s0 k) \<subseteq> set (members s k)"
    by (simp add: members_def)
  show ?thesis
    using addUserToRoom_members[of ws room uname ?s0 k] fresh
    by (auto simp: handleCreateRoom_def split: if_splits)
qed

lemma handleCreateRoom_keys:
  assumes "rooms (final (handleCreateRoom ws room uname s)) k \<noteq> None"
  shows "rooms s k \<noteq> None \<or> (k = room \<and> truthy room)"
proof -
  let ?s0 = "s\<lparr>rooms := (rooms s)(room \<mapsto> []), users := (users s)(room \<mapsto> []),
               drawings := (drawings s)(room \<mapsto> [])\<rparr>"
  show ?thesis
    using assms addUserToRoom_keys[of ws room uname ?s0 k]
    by (auto simp: handleCreateRoom_def split: if_splits)
qed

lemma handleJoinRoom_members:
  "set (members (final (handleJoinRoom ws room uname s)) k) \<subseteq>
     (if k = room then insert ws (set (members s k)) else set (members s k))"
  using addUserToRoom_members[of ws room uname s k]
  by (auto simp: handleJoinRoom_def split: if_splits)

lemma handleJoinRoom_keys:
  "rooms (final (handleJoinRoom ws room uname s)) k \<noteq> None \<Longrightarrow> rooms s k \<noteq> None"
  using addUserToRoom_keys[of ws room uname s k]
  by (auto simp: handleJoinRoom_def split: if_splits)

text \<open>
  The second half of the create and join cases: from a tidy state in which the
  connection is in no room, adopting the message's room and running the handler on the
  session's room gives a tidy state.
\<close>

lemma tidy_after_adopt:
  assumes t: "tidy s1" and out: "\<And>k. ws \<notin> set (members s1 k)"
    and h: "h = handleCreateRoom ws (currentRoom (sessions (adopt ws data s1) ws))
                  (usernameServer (sessions (adopt ws data s1) ws)) (adopt ws data s1) \<or>
            h = handleJoinRoom ws (currentRoom (sessions (adopt ws data s1) ws))
                  (usernameServer (sessions (adopt ws data s1) ws)) (adopt ws data s1)"
  shows "tidy (final h)"
proof (rule tidyI)
  let ?s2 = "adopt ws data s1"
  let ?room = "currentRoom (sessions ?s2 ws)"
  have other: "sessions ?s2 c = sessions s1 c" if "c \<noteq> ws" for c
    using that by (simp add: adopt_def)
  have sess: "sessions (final h) = sessions ?s2"
    using h by auto
  have mem: "set (members (final h) k) \<subseteq>
      (if k = ?room then insert ws (set (members s1 k)) else set (members s1 k))" for k
    using h handleCreateRoom_members[of ws ?room "usernameServer (sessions ?s2 ws)" ?s2 k]
      handleJoinRoom_members[of ws ?room "usernameServer (sessions ?s2 ws)" ?s2 k]
    by auto
  have "registry_ok ?s2" using tidyD(1)[OF t] by simp
  then show "registry_ok (final h)"
    using h registry_ok_handleCreateRoom[of ?s2 ws ?room "usernameServer (sessions ?s2 ws)"]
      registry_ok_handleJoinRoom[of ?s2 ws ?room "usernameServer (sessions ?s2 ws)"]
    by auto
  show "truthy k" if "rooms (final h) k \<noteq> None" for k
  proof -
    from that h have "rooms ?s2 k \<noteq> None \<or> (k = ?room \<and> truthy ?room)"
      using handleCreateRoom_keys[of ws ?room "usernameServer (sessions ?s2 ws)" ?s2 k]
        handleJoinRoom_keys[of ws ?room "usernameServer (sessions ?s2 ws)" ?s2 k]
      by auto
    then show ?thesis using tidyD(2)[OF t, of k] by auto
  qed
  show "currentRoom (sessions (final h) c) = k" if "c \<in> set (members (final h) k)" for c k
  proof (cases "c = ws")
    case True
    with that mem[of k] out[of k] have "k = ?room" by (auto split: if_splits)
    with True show ?thesis by (simp add: sess)
  next
    case False
    with that mem[of k] have "c \<in> set (members s1 k)" by (auto split: if_splits)
    from tidyD(3)[OF t this] other[OF False] show ?thesis by (simp add: sess)
  qed
qed

lemma tidy_create_join:
  assumes t: "tidy s"
    and ty: "js_get data ''type'' = JStr ''create_room'' \<or> js_get data ''type'' = JStr ''join_room''"
  shows "tidy (on_message ws now (Some data) s)"
proof (cases "leave_current ws s")
  case (Inl x)
  then obtain e s' where l: "leave_current ws s = Inl (e, s')" by (cases x) auto
  then have "s' = final (leave_current ws s)" by simp
  with tidy_leave_current(1)[OF t, of ws] have "tidy s'" by simp
  moreover have "on_message ws now (Some data) s = send ws (ErrorMessage ''Invalid data format'') s'"
    using ty l by (auto simp: on_message_create on_message_join)
  ultimately show ?thesis by simp
next
  case (Inr s1)
  then have s1: "s1 = final (leave_current ws s)" by simp
  have t1: "tidy s1" and out: "\<And>k. ws \<notin> set (members s1 k)"
    using tidy_leave_current[OF t, of ws] unfolding s1 by auto
  let ?s2 = "adopt ws data s1"
  let ?hc = "handleCreateRoom ws (currentRoom (sessions ?s2 ws)) (usernameServer (sessions ?s2 ws)) ?s2"
  let ?hj = "handleJoinRoom ws (currentRoom (sessions ?s2 ws)) (usernameServer (sessions ?s2 ws)) ?s2"
  from ty show ?thesis
  proof
    assume c: "js_get data ''type'' = JStr ''create_room''"
    have "tidy (final ?hc)" using tidy_after_adopt[OF t1 out, of ?hc data] by simp
    moreover have "on_message ws now (Some data) s = final ?hc \<or>
        on_message ws now (Some data) s = send ws (ErrorMessage ''Invalid data format'') (final ?hc)"
      using Inr by (cases ?hc) (auto simp: on_message_create[OF c])
    ultimately show ?thesis by auto
  next
    assume j: "js_get data ''type'' = JStr ''join_room''"
    have "tidy (final ?hj)" using tidy_after_adopt[OF t1 out, of ?hj data] by simp
    moreover have "on_message ws now (Some data) s = final ?hj \<or>
        on_message ws now (Some data) s = send ws (ErrorMessage ''Invalid data format'') (final ?hj)"
      using Inr by (cases ?hj) (auto simp: on_message_join[OF j])
    ultimately show ?thesis by auto
  qed
qed

lemma tidy_relay:
  assumes t: "tidy s"
    and ty: "js_get data ''type'' \<in> {JStr ''chat'', JStr ''start'', JStr ''draw'', JStr ''text'',
               JStr ''rectangle'', JStr ''circle'', JStr ''clear''}"
    and same: "js_get data ''roomId'' = currentRoom (sessions s ws)"
  shows "tidy (on_message ws now (Some data) s)"
proof (rule tidyI)
  let ?s' = "on_message ws now (Some data) s"
  have sess: "sessions ?s' = sessions s"
    using relay_session[OF ty, of ws now s] same by (simp add: fun_eq_iff)
  have mem: "members ?s' = members s"
    using relay_rooms(1)[OF ty, of ws now s] by (simp add: members_def fun_eq_iff)
  show "registry_ok ?s'" using tidyD(1)[OF t] by (rule registry_ok_on_message)
  show "truthy k" if "rooms ?s' k \<noteq> None" for k
    using that tidyD(2)[OF t, of k] relay_rooms(1)[OF ty, of ws now s] by simp
  show "currentRoom (sessions ?s' c) = k" if "c \<in> set (members ?s' k)" for c k
    using that tidyD(3)[OF t, of c k] by (simp add: sess mem)
qed

lemma tidy_step:
  assumes t: "tidy s" and k: "keeps_to_room ev s"
  shows "tidy (final (step ev s))"
proof (cases ev)
  case (Message ws now raw)
  show ?thesis
  proof (cases raw)
    case None
    with Message t show ?thesis by (simp add: on_message_def)
  next
    case (Some data)
    have "tidy (on_message ws now (Some data) s)"
    proof (cases rule: type_cases[of data])
      case unusable
      with t show ?thesis by (simp add: on_message_missing_type)
    next
      case create
      with t show ?thesis by (simp add: tidy_create_join)
    next
      case join
      with t show ?thesis by (simp add: tidy_create_join)
    next
      case relay
      with k Message Some have "js_get data ''roomId'' = currentRoom (sessions s ws)" by auto
      from tidy_relay[OF t relay this] show ?thesis .
    next
      case unknown
      then have "on_message ws now (Some data) s = s \<or>
                 on_message ws now (Some data) s = send ws (ErrorMessage ''Invalid data format'') s"
        by (simp add: on_message_def dispatch_unknown)
      with t show ?thesis by auto
    qed
    with Message Some show ?thesis by simp
  qed
next
  case (Close ws)
  with tidy_leave_current(1)[OF t, of ws] show ?thesis by (simp add: on_close_def)
next
  case (ReadyState ws b)
  have "tidy (s\<lparr>ready := (if b then ready s \<union> {ws} else ready s - {ws})\<rparr>) = tidy s"
    by (rule tidy_cong) simp_all
  with ReadyState t show ?thesis by simp
qed

lemma tidy_run: "tidy s \<Longrightarrow> disciplined es s \<Longrightarrow> tidy (final (run es s))"
proof (induction es arbitrary: s)
  case Nil
  then show ?case by simp
next
  case (Cons ev es)
  from Cons.prems have k: "keeps_to_room ev s" by simp
  show ?case
  proof (cases "step ev s")
    case (Inl x)
    with tidy_step[OF Cons.prems(1) k] show ?thesis by (cases x) simp
  next
    case (Inr s')
    with tidy_step[OF Cons.prems(1) k] have "tidy s'" by simp
    moreover from Cons.prems(2) Inr have "disciplined es s'" by simp
    ultimately show ?thesis using Cons.IH Inr by simp
  qed
qed

lemma tidy_init: "tidy init_server"
  by (simp add: tidy_def registry_ok_init) (simp add: init_server_def members_def)

text \<open>
  As long as every relayed message names the room its sender's session is in, a
  connection is never in two rooms.
\<close>

lemma single_room_when_disciplined:
  assumes "disciplined es init_server"
    and "c \<in> set (members (final (run es init_server)) k)"
    and "c \<in> set (members (final (run es init_server)) k')"
  shows "k = k'"
  using tidyD(3)[OF tidy_run[OF tidy_init assms(1)]] assms(2,3) by blast

section \<open>The history of a room along a run\<close>

lemma handleCreateRoom_history_kept:
  "rooms s k \<noteq> None \<Longrightarrow> drawings (final (handleCreateRoom ws room uname s)) k = drawings s k"
proof -
  let ?s0 = "s\<lparr>rooms := (rooms s)(room \<mapsto> []), users := (users s)(room \<mapsto> []),
               drawings := (drawings s)(room \<mapsto> [])\<rparr>"
  assume "rooms s k \<noteq> None"
  then show ?thesis
    using addUserToRoom_frame(3)[of ws room uname ?s0]
    by (auto simp: handleCreateRoom_def split: if_splits)
qed

lemma handleCreateRoom_history_fresh:
  assumes "rooms s k = None" and "rooms (final (handleCreateRoom ws room uname s)) k \<noteq> None"
  shows "drawings (final (handleCreateRoom ws room uname s)) k = Some []"
proof -
  let ?s0 = "s\<lparr>rooms := (rooms s)(room \<mapsto> []), users := (users s)(room \<mapsto> []),
               drawings := (drawings s)(room \<mapsto> [])\<rparr>"
  have k: "k = room"
    using assms handleCreateRoom_keys[of ws room uname s k] by auto
  have "handleCreateRoom ws room uname s = addUserToRoom ws room uname ?s0"
    using assms k by (auto simp: handleCreateRoom_def split: if_splits)
  then show ?thesis
    using addUserToRoom_frame(3)[of ws room uname ?s0] k by simp
qed

lemma relay_other_history:
  assumes ty: "js_get data ''type'' \<in> {JStr ''chat'', JStr ''start'', JStr ''draw'', JStr ''text'',
             JStr ''rectangle'', JStr ''circle'', JStr ''clear''}"
    and other: "js_get data ''type'' = JStr ''chat'' \<or> js_get data ''roomId'' \<noteq> k"
  shows "drawings (on_message ws now (Some data) s) k = drawings s k"
  using ty
proof (cases rule: relay_cases)
  case chat
  then show ?thesis by (simp add: on_message_chat)
next
  case drawing
  with other have "js_get data ''roomId'' \<noteq> k" by auto
  with drawing show ?thesis
    by (cases "drawings s (js_get data ''roomId'')") (simp_all add: on_message_drawing handleDrawing_def)
next
  case shape
  with other have "js_get data ''roomId'' \<noteq> k" by auto
  with shape show ?thesis
    by (cases "drawings s (js_get data ''roomId'')") (simp_all add: on_message_shape handleShape_def)
qed

lemma unregistered_history:
  "registry_ok s \<Longrightarrow> rooms s k = None \<Longrightarrow> drawings s k = None"
  by (simp add: registry_okD)

lemma history_message_create:
  assumes ok: "registry_ok s" and ty: "js_get data ''type'' = JStr ''create_room''"
    and reg: "rooms (on_message ws now (Some data) s) k \<noteq> None"
  shows "drawings (on_message ws now (Some data) s) k =
           (if rooms (final (leave_current ws s)) k = None then Some [] else drawings s k)"
proof (cases "leave_current ws s")
  case (Inl x)
  then obtain e s1 where l: "leave_current ws s = Inl (e, s1)" by (cases x) auto
  have res: "on_message ws now (Some data) s = send ws (ErrorMessage ''Invalid data format'') s1"
    using l by (simp add: on_message_create[OF ty])
  with reg have r1: "rooms (final (leave_current ws s)) k \<noteq> None" by (simp add: l)
  from leave_current_keeps_history[OF this] show ?thesis
    using r1 by (auto simp: res l)
next
  case (Inr s1)
  then have s1: "s1 = final (leave_current ws s)" by simp
  let ?s2 = "adopt ws data s1"
  let ?h = "handleCreateRoom ws (currentRoom (sessions ?s2 ws)) (usernameServer (sessions ?s2 ws)) ?s2"
  have res: "on_message ws now (Some data) s = final ?h \<or>
        on_message ws now (Some data) s = send ws (ErrorMessage ''Invalid data format'') (final ?h)"
    using Inr by (cases ?h) (auto simp: on_message_create[OF ty])
  then have same: "drawings (on_message ws now (Some data) s) k = drawings (final ?h) k"
    "rooms (on_message ws now (Some data) s) k = rooms (final ?h) k"
    by auto
  show ?thesis
  proof (cases "rooms s1 k = None")
    case True
    then have "rooms ?s2 k = None" by simp
    from handleCreateRoom_history_fresh[OF this] reg same True show ?thesis
      by (auto simp: s1)
  next
    case False
    then have "rooms ?s2 k \<noteq> None" by simp
    from handleCreateRoom_history_kept[OF this] have "drawings (final ?h) k = drawings s1 k"
      by simp
    moreover have "drawings s1 k = drawings s k"
      using leave_current_keeps_history[of ws s k] False by (simp add: s1)
    ultimately show ?thesis using False same by (auto simp: s1)
  qed
qed

lemma history_message_join:
  assumes ty: "js_get data ''type'' = JStr ''join_room''"
    and reg: "rooms (on_message ws now (Some data) s) k \<noteq> None"
  shows "drawings (on_message ws now (Some data) s) k = drawings s k"
proof (cases "leave_current ws s")
  case (Inl x)
  then obtain e s1 where l: "leave_current ws s = Inl (e, s1)" by (cases x) auto
  have res: "on_message ws now (Some data) s = send ws (ErrorMessage ''Invalid data format'') s1"
    using l by (simp add: on_message_join[OF ty])
  with reg have r1: "rooms (final (leave_current ws s)) k \<noteq> None" by (simp add: l)
  from leave_current_keeps_history[OF this] show ?thesis
    by (simp add: res l)
next
  case (Inr s1)
  then have s1: "s1 = final (leave_current ws s)" by simp
  let ?s2 = "adopt ws data s1"
  let ?h = "handleJoinRoom ws (currentRoom (sessions ?s2 ws)) (usernameServer (sessions ?s2 ws)) ?s2"
  have res: "on_message ws now (Some data) s = final ?h \<or>
        on_message ws now (Some data) s = send ws (ErrorMessage ''Invalid data format'') (final ?h)"
    using Inr by (cases ?h) (auto simp: on_message_join[OF ty])
  then have same: "drawings (on_message ws now (Some data) s) k = drawings (final ?h) k"
    "rooms (on_message ws now (Some data) s) k = rooms (final ?h) k"
    by auto
  with reg have "rooms (final ?h) k \<noteq> None" by simp
  then have "rooms ?s2 k \<noteq> None" by (rule handleJoinRoom_keys)
  then have "rooms (final (leave_current ws s)) k \<noteq> None" by (simp add: s1)
  from leave_current_keeps_history[OF this] same show ?thesis
    by (simp add: s1)
qed

text \<open>One event changes the history of a room as the log prescribes.\<close>

lemma history_step:
  assumes ok: "registry_ok s"
  shows "drawings (final (step ev s)) k = log_event k ev s (drawings s k)"
proof (cases "rooms (final (step ev s)) k = None")
  case True
  have "registry_ok (final (step ev s))" using ok by (rule registry_ok_step)
  from unregistered_history[OF this True] True show ?thesis
    by (auto simp: log_event_def)
next
  case reg: False
  show ?thesis
  proof (cases ev)
    case (ReadyState ws b)
    with reg show ?thesis by (auto simp: log_event_def)
  next
    case (Close ws)
    with reg have "rooms (final (leave_current ws s)) k \<noteq> None" by (simp add: on_close_def)
    from leave_current_keeps_history[OF this] reg Close show ?thesis
      by (auto simp: log_event_def on_close_def)
  next
    case (Message ws now raw)
    show ?thesis
    proof (cases raw)
      case None
      with Message reg show ?thesis by (auto simp: log_event_def on_message_def)
    next
      case (Some data)
      note ev = Message Some
      from reg ev have reg': "rooms (on_message ws now (Some data) s) k \<noteq> None" by simp
      show ?thesis
      proof (cases rule: type_cases[of data])
        case unusable
        then have "\<not> drawing_event k ev" "\<not> creates k ev s" using ev by auto
        with unusable reg show ?thesis
          by (auto simp: log_event_def ev on_message_missing_type)
      next
        case create
        then have nd: "\<not> drawing_event k ev" using ev by simp
        have cr: "creates k ev s = (rooms (final (leave_current ws s)) k = None)"
          using create reg' ev by simp
        from history_message_create[OF ok create reg'] nd cr reg show ?thesis
          by (auto simp: log_event_def ev)
      next
        case join
        then have "\<not> drawing_event k ev" "\<not> creates k ev s" using ev by auto
        with history_message_join[OF join reg'] reg show ?thesis
          by (auto simp: log_event_def ev)
      next
        case relay
        then have nc: "\<not> creates k ev s" using ev by auto
        show ?thesis
        proof (cases "drawing_event k ev")
          case True
          from reg' relay_rooms(1)[OF relay, of ws now s] have "rooms s k \<noteq> None" by simp
          then obtain h where h: "drawings s k = Some h"
            using registry_okD(2)[OF ok, of k] by auto
          from drawing_step[OF True h] have "drawings (final (step ev s)) k = Some (spec_replay h [payload ev])"
            by auto
          with True nc reg h show ?thesis by (auto simp: log_event_def)
        next
          case False
          with relay ev have "js_get data ''type'' = JStr ''chat'' \<or> js_get data ''roomId'' \<noteq> k"
            by auto
          from relay_other_history[OF relay this, of ws now s] False nc reg show ?thesis
            by (auto simp: log_event_def ev)
        qed
      next
        case unknown
        then have nd: "\<not> drawing_event k ev" "\<not> creates k ev s"
          using ev by (auto simp: known_types_def)
        from unknown have "on_message ws now (Some data) s = s \<or>
                 on_message ws now (Some data) s = send ws (ErrorMessage ''Invalid data format'') s"
          by (simp add: on_message_def dispatch_unknown)
        then have "drawings (on_message ws now (Some data) s) k = drawings s k" by auto
        with nd reg show ?thesis by (auto simp: log_event_def ev)
      qed
    qed
  qed
qed

lemma history_run:
  "registry_ok s \<Longrightarrow> drawings (final (run es s)) k = history_log k es s (drawings s k)"
proof (induction es arbitrary: s)
  case Nil
  then show ?case by simp
next
  case (Cons ev es)
  note st = history_step[OF Cons.prems, of ev k]
  show ?case
  proof (cases "step ev s")
    case (Inl x)
    with st show ?thesis by (cases x) simp
  next
    case (Inr s')
    with registry_ok_step[OF Cons.prems, of ev] have "registry_ok s'" by simp
    from Cons.IH[OF this] st Inr show ?thesis by simp
  qed
qed

lemma history_log_append:
  "run es s = Inr s' \<Longrightarrow>
   history_log room (es @ es') s h = history_log room es' s' (history_log room es s h)"
proof (induction es arbitrary: s h)
  case Nil
  then show ?case by simp
next
  case (Cons ev es)
  then show ?case by (cases "step ev s") simp_all
qed

lemma persists_append:
  "run es s = Inr s' \<Longrightarrow> persists room (es @ es') s = (persists room es s \<and> persists room es' s')"
proof (induction es arbitrary: s)
  case Nil
  then show ?case by simp
next
  case (Cons ev es)
  then show ?case by (cases "step ev s") simp_all
qed

lemma drawn_simps [simp]:
  "drawn room [] = []"
  "drawn room (ev # es) = (if drawing_event room ev then payload ev # drawn room es else drawn room es)"
  "drawn room (es @ es') = drawn room es @ drawn room es'"
  by (simp_all add: drawn_def)

lemma persists_history:
  "run es s = Inr s1 \<Longrightarrow> persists room es s \<Longrightarrow>
   history_log room es s (Some h) = Some (spec_replay h (drawn room es))"
proof (induction es arbitrary: s h)
  case Nil
  then show ?case by simp
next
  case (Cons ev es)
  from Cons.prems(1) obtain s' where st: "step ev s = Inr s'" and r: "run es s' = Inr s1"
    by (cases "step ev s") simp_all
  from Cons.prems(2) st have p: "\<not> creates room ev s" "rooms s' room \<noteq> None" "persists room es s'"
    by simp_all
  have le: "log_event room ev s (Some h) =
      Some (if drawing_event room ev then spec_replay h [payload ev] else h)"
    using p st by (simp add: log_event_def)
  show ?case
    using Cons.IH[OF r p(3)] st le by simp
qed

text \<open>A room comes to be registered only by an event that creates it.\<close>

lemma registered_by_creation:
  assumes after: "rooms (final (step ev s)) k \<noteq> None" and nc: "\<not> creates k ev s"
  shows "rooms s k \<noteq> None"
proof (cases ev)
  case (ReadyState ws b)
  with after show ?thesis by simp
next
  case (Close ws)
  with after have "rooms (final (leave_current ws s)) k \<noteq> None" by (simp add: on_close_def)
  with leave_current_creates_nothing[of s k ws] show ?thesis by blast
next
  case (Message ws now raw)
  show ?thesis
  proof (cases raw)
    case None
    with Message after show ?thesis by (simp add: on_message_def)
  next
    case (Some data)
    note ev = Message Some
    from after ev have reg: "rooms (on_message ws now (Some data) s) k \<noteq> None" by simp
    show ?thesis
    proof (cases rule: type_cases[of data])
      case unusable
      with reg show ?thesis by (simp add: on_message_missing_type)
    next
      case create
      with nc reg ev have "rooms (final (leave_current ws s)) k \<noteq> None" by simp
      with leave_current_creates_nothing[of s k ws] show ?thesis by blast
    next
      case join
      show ?thesis
      proof (cases "leave_current ws s")
        case (Inl x)
        then obtain e s1 where l: "leave_current ws s = Inl (e, s1)" by (cases x) auto
        with reg have "rooms (final (leave_current ws s)) k \<noteq> None"
          by (simp add: on_message_join[OF join])
        with leave_current_creates_nothing[of s k ws] show ?thesis by blast
      next
        case (Inr s1)
        let ?s2 = "adopt ws data s1"
        let ?h = "handleJoinRoom ws (currentRoom (sessions ?s2 ws)) (usernameServer (sessions ?s2 ws)) ?s2"
        have "rooms (on_message ws now (Some data) s) k = rooms (final ?h) k"
          using Inr by (cases ?h) (auto simp: on_message_join[OF join])
        with reg have "rooms (final ?h) k \<noteq> None" by simp
        then have "rooms ?s2 k \<noteq> None" by (rule handleJoinRoom_keys)
        then have "rooms (final (leave_current ws s)) k \<noteq> None" by (simp add: Inr)
        with leave_current_creates_nothing[of s k ws] show ?thesis by blast
      qed
    next
      case relay
      from relay_rooms(1)[OF relay, of ws now s] reg show ?thesis by simp
    next
      case unknown
      then have "on_message ws now (Some data) s = s \<or>
                 on_message ws now (Some data) s = send ws (ErrorMessage ''Invalid data format'') s"
        by (simp add: on_message_def dispatch_unknown)
      with reg show ?thesis by auto
    qed
  qed
qed

text \<open>Every registered room has a last event that created it.\<close>

lemma last_creation:
  assumes "run es s = Inr s1" and "rooms s1 room \<noteq> None" and "rooms s room = None"
  shows "\<exists>pre ev post. es = pre @ ev # post \<and> creates room ev (final (run pre s)) \<and>
           persists room post (final (run (pre @ [ev]) s))"
  using assms
proof (induction es arbitrary: s1 rule: rev_induct)
  case Nil
  then show ?case by simp
next
  case (snoc x xs)
  from snoc.prems(1) obtain s' where xs: "run xs s = Inr s'"
    by (cases "run xs s") (simp_all add: run_append)
  with snoc.prems(1) have x: "step x s' = Inr s1"
    by (cases "step x s'") (simp_all add: run_append)
  show ?case
  proof (cases "creates room x s'")
    case True
    have "xs @ [x] = xs @ x # [] \<and> creates room x (final (run xs s)) \<and>
          persists room [] (final (run (xs @ [x]) s))"
      using True xs by simp
    then show ?thesis by blast
  next
    case False
    from snoc.prems(2) x have "rooms (final (step x s')) room \<noteq> None" by simp
    from registered_by_creation[OF this False] have reg: "rooms s' room \<noteq> None" .
    from snoc.IH[OF xs reg snoc.prems(3)] obtain pre ev post where
      d: "xs = pre @ ev # post" "creates room ev (final (run pre s))"
         "persists room post (final (run (pre @ [ev]) s))"
      by blast
    from xs d(1) obtain s0 where s0: "run (pre @ [ev]) s = Inr s0" and post: "run post s0 = Inr s'"
      by (cases "run (pre @ [ev]) s") (simp_all add: run_append split: sum.splits)
    have "persists room (post @ [x]) s0"
      using persists_append[OF post, of room "[x]"] d(3) s0 False snoc.prems(2) x by simp
    then have "xs @ [x] = pre @ ev # (post @ [x]) \<and> creates room ev (final (run pre s)) \<and>
          persists room (post @ [x]) (final (run (pre @ [ev]) s))"
      using d s0 by simp
    then show ?thesis by blast
  qed
qed

text \<open>After the event that creates a room, and while the room persists, its history is
  the replay of the drawing events for it.\<close>

lemma history_since_creation:
  assumes r: "run (pre @ ev # post) init_server = Inr s1"
    and cr: "creates room ev (final (run pre init_server))"
    and p: "persists room post (final (run (pre @ [ev]) init_server))"
  shows "drawings s1 room = Some (spec_replay [] (drawn room post))"
proof -
  from r obtain s0 where s0: "run pre init_server = Inr s0"
    by (cases "run pre init_server") (simp_all add: run_append)
  from r s0 obtain s2 where s2: "step ev s0 = Inr s2" and post: "run post s2 = Inr s1"
    by (cases "step ev s0") (simp_all add: run_append)
  have pe: "run (pre @ [ev]) init_server = Inr s2"
    using s0 s2 by (simp add: run_append)
  have "history_log room (pre @ [ev]) init_server None = log_event room ev s0 (history_log room pre init_server None)"
    using history_log_append[OF s0, of room "[ev]" None] s2 by simp
  also have "\<dots> = Some []"
  proof -
    from cr s0 obtain ws now data where e: "ev = Message ws now (Some data)"
      by (cases "(room, ev, s0)" rule: creates.cases) auto
    with cr s0 have "rooms (final (step ev s0)) room \<noteq> None" by simp
    with cr s0 show ?thesis by (simp add: log_event_def)
  qed
  finally have h0: "history_log room (pre @ [ev]) init_server None = Some []" .
  have "drawings s1 room = history_log room ((pre @ [ev]) @ post) init_server None"
    using history_run[OF registry_ok_init, of "pre @ ev # post" room] r
    by (simp add: init_server_def)
  also have "\<dots> = history_log room post s2 (Some [])"
    using history_log_append[OF pe, of room post None] h0 by simp
  also have "\<dots> = Some (spec_replay [] (drawn room post))"
    using persists_history[OF post, of room "[]"] p pe by simp
  finally show ?thesis .
qed

lemma replay_after_clear:
  assumes "js_get x ''type'' = JStr ''clear''" and "\<forall>d \<in> set b. js_get d ''type'' \<noteq> JStr ''clear''"
  shows "spec_replay h (a @ x # b) = b"
proof -
  have "spec_replay h (a @ x # b) = spec_replay (spec_replay (spec_replay h a) [x]) b"
    using replay_append[of h a "x # b"] replay_append[of "spec_replay h a" "[x]" b] by simp
  also have "\<dots> = spec_replay [] b" using assms(1) by simp
  also have "\<dots> = b" using replay_no_clear[OF assms(2), of "[]"] by simp
  finally show ?thesis .
qed

lemma persists_drawing:
  "list_all (drawing_event room) es \<Longrightarrow> rooms s room \<noteq> None \<Longrightarrow> drawings s room \<noteq> None \<Longrightarrow>
   persists room es s"
proof (induction es arbitrary: s)
  case Nil
  then show ?case by simp
next
  case (Cons ev es)
  from Cons.prems obtain h where h: "drawings s room = Some h" by auto
  from Cons.prems have ev: "drawing_event room ev" and rest: "list_all (drawing_event room) es"
    by simp_all
  from drawing_step[OF ev h] obtain s' where s': "step ev s = Inr s'"
    "drawings s' room = Some (spec_replay h [payload ev])" "rooms s' = rooms s"
    by blast
  from ev have nc: "\<not> creates room ev s"
    by (cases "(room, ev)" rule: drawing_event.cases) auto
  from Cons.IH[OF rest, of s'] s' Cons.prems(2) nc show ?case by simp
qed

section \<open>A session that points at another room\<close>

lemma chatted_reached: "run alice_chats_elsewhere init_server = Inr chatted"
  by (simp add: chatted_def alice_chats_elsewhere_def alice_creates_r1_def room_message_def
      plain_message_def handler_defs)

lemma chatted_fields:
  "rooms chatted = [JStr ''r1'' \<mapsto> [0]]"
  "users chatted = [JStr ''r1'' \<mapsto> [JStr ''alice'']]"
  "drawings chatted = [JStr ''r1'' \<mapsto> []]"
  "sessions chatted 0 = \<lparr>currentRoom = JStr ''lobby'', usernameServer = JStr ''alice''\<rparr>"
  by (simp_all add: chatted_def alice_chats_elsewhere_def alice_creates_r1_def room_message_def
      plain_message_def handler_defs)

lemma chatted_ready: "ready chatted = {0, 1}"
  by (auto simp add: chatted_def alice_chats_elsewhere_def alice_creates_r1_def room_message_def
      plain_message_def handler_defs)

lemma strayed_reached: "run alice_strays init_server = Inr strayed"
  by (simp add: strayed_def alice_strays_def alice_creates_r1_def room_message_def
      plain_message_def handler_defs)

lemma strayed_fields:
  "rooms strayed = [JStr ''r1'' \<mapsto> [0], JStr ''r2'' \<mapsto> [0]]"
  "users strayed = [JStr ''r1'' \<mapsto> [JStr ''alice''], JStr ''r2'' \<mapsto> [JStr ''alice'']]"
  "sessions strayed 0 = \<lparr>currentRoom = JStr ''r2'', usernameServer = JStr ''alice''\<rparr>"
  by (simp_all add: strayed_def alice_strays_def alice_creates_r1_def room_message_def
      plain_message_def handler_defs)

section \<open>Claims\<close>

subsection \<open>C9: relayed messages for a room that is not registered\<close>

text \<open>
  C9.  In every state the server can reach from its start, a \<^verbatim>\<open>chat\<close>, \<^verbatim>\<open>start\<close>, \<^verbatim>\<open>draw\<close>,
  \<^verbatim>\<open>text\<close>, \<^verbatim>\<open>rectangle\<close>, \<^verbatim>\<open>circle\<close> or \<^verbatim>\<open>clear\<close> message whose \<^verbatim>\<open>roomId\<close> names no
  registered room (an absent \<^verbatim>\<open>roomId\<close> included) leaves the registry and every room's
  members, usernames and history as they were, and not a single \<^verbatim>\<open>send\<close> is made: nothing
  is broadcast and the sender gets no reply.
\<close>

theorem unknown_room_dropped:
  assumes reach: "run es init_server = Inr s"
    and ty: "js_get data ''type'' \<in> {JStr ''chat'', JStr ''start'', JStr ''draw'', JStr ''text'',
               JStr ''rectangle'', JStr ''circle'', JStr ''clear''}"
    and absent: "rooms s (js_get data ''roomId'') = None"
  shows "rooms (on_message ws now (Some data) s) = rooms s \<and>
         users (on_message ws now (Some data) s) = users s \<and>
         drawings (on_message ws now (Some data) s) = drawings s \<and>
         ready (on_message ws now (Some data) s) = ready s \<and>
         outbox (on_message ws now (Some data) s) = outbox s"
proof -
  let ?k = "js_get data ''roomId''"
  let ?s1 = "set_currentRoom ws ?k s"
  have "registry_ok s"
    using registry_ok_run[OF registry_ok_init, of es] reach by simp
  with absent have d: "drawings s ?k = None"
    by (simp add: registry_okD)
  from ty show ?thesis
  proof (cases rule: relay_cases)
    case chat
    with absent show ?thesis
      by (simp add: on_message_chat broadcastToRoomExcept_absent)
  next
    case drawing
    with d show ?thesis
      by (simp add: on_message_drawing handleDrawing_def)
  next
    case shape
    with d show ?thesis
      by (simp add: on_message_shape handleShape_def)
  qed
qed

text \<open>
  The theorem at work: connection 0 has created r1 and then draws into r2, which does
  not exist.
\<close>

theorem unknown_room_dropped_witness:
  "run alice_creates_r1 init_server = Inr one_room \<and>
   rooms one_room (JStr ''r2'') = None \<and>
   rooms (on_message 0 2 (Some (plain_message 2 ''draw'' ''r2'')) one_room) = rooms one_room \<and>
   users (on_message 0 2 (Some (plain_message 2 ''draw'' ''r2'')) one_room) = users one_room \<and>
   drawings (on_message 0 2 (Some (plain_message 2 ''draw'' ''r2'')) one_room) = drawings one_room \<and>
   ready (on_message 0 2 (Some (plain_message 2 ''draw'' ''r2'')) one_room) = ready one_room \<and>
   outbox (on_message 0 2 (Some (plain_message 2 ''draw'' ''r2'')) one_room) = outbox one_room"
proof -
  have absent: "rooms one_room (js_get (plain_message 2 ''draw'' ''r2'') ''roomId'') = None"
    by (simp add: one_room_fields plain_message_def)
  have ty: "js_get (plain_message 2 ''draw'' ''r2'') ''type'' \<in> {JStr ''chat'', JStr ''start'',
      JStr ''draw'', JStr ''text'', JStr ''rectangle'', JStr ''circle'', JStr ''clear''}"
    by (simp add: plain_message_def)
  from unknown_room_dropped[OF one_room_reached ty absent, of 0 2] one_room_reached absent
  show ?thesis by (simp add: plain_message_def)
qed

subsection \<open>C8: unrecognised and missing message types\<close>

text \<open>
  C8 as stated fails for a message without \<^verbatim>\<open>type\<close>: the handler raises
  \<^verbatim>\<open>Missing message type\<close>, the \<^verbatim>\<open>catch\<close> block answers, and the sender does receive
  an error envelope.
\<close>

theorem missing_type_counterexample:
  "js_get (JObj 2 [(''roomId'', JStr ''r1'')]) ''type'' = JUndefined \<and>
   outbox (on_message 0 2 (Some (JObj 2 [(''roomId'', JStr ''r1'')])) one_room) =
     outbox one_room @ [(0, ErrorMessage ''Invalid data format'')]"
  by (simp add: on_message_def dispatch_def send_def)

text \<open>
  C8, amended.  A message whose \<^verbatim>\<open>type\<close> is truthy, is none of the nine known types and
  converts to a string (every string, number and boolean does) is ignored: the state
  after the handler is the state before it, so no reply is sent, the registry and the
  rooms are unchanged, and the connection stays as it was.  A message whose \<^verbatim>\<open>type\<close> is
  missing or falsy is rejected instead: the sender alone is sent the error envelope
  \<^verbatim>\<open>Invalid data format\<close>, and nothing else changes.
\<close>

theorem unknown_type_ignored_missing_type_rejected:
  "(truthy (js_get data ''type'') \<and> js_get data ''type'' \<notin> known_types \<and>
    \<not> tostring_throws (js_get data ''type'') \<longrightarrow>
      on_message ws now (Some data) s = s) \<and>
   (\<not> truthy (js_get data ''type'') \<longrightarrow>
      on_message ws now (Some data) s = send ws (ErrorMessage ''Invalid data format'') s \<and>
      rooms (on_message ws now (Some data) s) = rooms s \<and>
      users (on_message ws now (Some data) s) = users s \<and>
      drawings (on_message ws now (Some data) s) = drawings s \<and>
      sessions (on_message ws now (Some data) s) = sessions s \<and>
      ready (on_message ws now (Some data) s) = ready s \<and>
      outbox (on_message ws now (Some data) s) = outbox s @ [(ws, ErrorMessage ''Invalid data format'')])"
  using on_message_missing_type[of data ws now s] on_message_unknown_type[of data ws now s]
  by simp

text \<open>Both halves at concrete messages: type \<^verbatim>\<open>ping\<close>, and no type at all.\<close>

theorem unknown_type_ignored_missing_type_rejected_witness:
  "on_message 0 2 (Some (plain_message 2 ''ping'' ''r1'')) one_room = one_room \<and>
   on_message 0 2 (Some (JObj 2 [(''roomId'', JStr ''r1'')])) one_room =
     send 0 (ErrorMessage ''Invalid data format'') one_room"
  using unknown_type_ignored_missing_type_rejected[of "plain_message 2 ''ping'' ''r1''" 0 2 one_room]
    unknown_type_ignored_missing_type_rejected[of "JObj 2 [(''roomId'', JStr ''r1'')]" 0 2 one_room]
  by (simp add: plain_message_def known_types_def)

subsection \<open>C7: the session of a connection under relayed messages\<close>

text \<open>
  C7.  The claim is that a \<^verbatim>\<open>chat\<close>, \<^verbatim>\<open>start\<close>, \<^verbatim>\<open>draw\<close>, \<^verbatim>\<open>text\<close>, \<^verbatim>\<open>rectangle\<close>, \<^verbatim>\<open>circle\<close>
  or \<^verbatim>\<open>clear\<close> message leaves the session's current room unchanged.  The code assigns
  \<^verbatim>\<open>currentRoom = data.roomId\<close> in each of these cases (\<open>relay_session\<close>), without leaving
  the room the connection is in.  Evaluated: connection 0 is in r1 and sends a chat naming
  r2; afterwards its session points at r2 while it is still a member of r1.
\<close>

theorem chat_overwrites_current_room:
  "currentRoom (sessions one_room 0) = JStr ''r1'' \<and>
   currentRoom (sessions (on_message 0 2 (Some (plain_message 2 ''chat'' ''r2'')) one_room) 0) = JStr ''r2'' \<and>
   rooms (on_message 0 2 (Some (plain_message 2 ''chat'' ''r2'')) one_room) (JStr ''r1'') = Some [0]"
  by (simp add: one_room_fields on_message_chat plain_message_def set_currentRoom_def)

subsection \<open>C4: who receives a broadcast\<close>

text \<open>
  C4.  For every \<^verbatim>\<open>chat\<close>, \<^verbatim>\<open>start\<close>, \<^verbatim>\<open>draw\<close>, \<^verbatim>\<open>text\<close>, \<^verbatim>\<open>rectangle\<close>, \<^verbatim>\<open>circle\<close> and
  \<^verbatim>\<open>clear\<close> message, everything the handler sends is one envelope, sent to members of
  the room the message names, and never to the sending connection.  For a join
  (\<^verbatim>\<open>addUserToRoom\<close> running to its end), the \<^verbatim>\<open>user_joined\<close> announcement is sent to
  members of the room after the join, and the joining connection is among the recipients;
  its socket is open, as it is whenever its own message is being handled.
\<close>

theorem self_exclusion:
  "(js_get data ''type'' \<in> {JStr ''chat'', JStr ''start'', JStr ''draw'', JStr ''text'',
       JStr ''rectangle'', JStr ''circle'', JStr ''clear''} \<longrightarrow>
      (\<exists>e rcpts. outbox (on_message ws now (Some data) s) = outbox s @ map (\<lambda>c. (c, e)) rcpts \<and>
         ws \<notin> set rcpts \<and> set rcpts \<subseteq> set (members s (js_get data ''roomId'')))) \<and>
   (addUserToRoom ws room uname s = Inr s' \<and> ws \<in> ready s \<longrightarrow>
      (\<exists>e rcpts. outbox s' = outbox s @ map (\<lambda>c. (c, e)) rcpts \<and>
         is_user_joined e \<and> ws \<in> set rcpts \<and> set rcpts \<subseteq> set (members s' room)))"
proof (intro conjI impI)
  assume "js_get data ''type'' \<in> {JStr ''chat'', JStr ''start'', JStr ''draw'', JStr ''text'',
       JStr ''rectangle'', JStr ''circle'', JStr ''clear''}"
  then show "\<exists>e rcpts. outbox (on_message ws now (Some data) s) = outbox s @ map (\<lambda>c. (c, e)) rcpts \<and>
         ws \<notin> set rcpts \<and> set rcpts \<subseteq> set (members s (js_get data ''roomId''))"
    by (rule relay_sent)
next
  assume a: "addUserToRoom ws room uname s = Inr s' \<and> ws \<in> ready s"
  then obtain n t us where
    o: "outbox s' = outbox s @ map (\<lambda>c. (c, UserJoined (drawings s room) us uname room n t))
             (filter (\<lambda>c. c \<in> ready s) (members s' room))"
    and m: "ws \<in> set (members s' room)"
    using addUserToRoom_sent[of ws room uname s s'] by blast
  show "\<exists>e rcpts. outbox s' = outbox s @ map (\<lambda>c. (c, e)) rcpts \<and>
         is_user_joined e \<and> ws \<in> set rcpts \<and> set rcpts \<subseteq> set (members s' room)"
    using o m a
    by (intro exI[of _ "UserJoined (drawings s room) us uname room n t"]
              exI[of _ "filter (\<lambda>c. c \<in> ready s) (members s' room)"]) auto
qed

text \<open>
  Both halves in the example: connection 0 draws in r1 and only connection 1 is sent the
  drawing; when connection 1 joined r1, it was itself among the recipients of the
  announcement.
\<close>

theorem self_exclusion_witness:
  "(\<exists>e rcpts. outbox (on_message 0 3 (Some (plain_message 3 ''draw'' ''r1'')) two_in_room) =
        outbox two_in_room @ map (\<lambda>c. (c, e)) rcpts \<and>
      0 \<notin> set rcpts \<and> set rcpts \<subseteq> set (members two_in_room (JStr ''r1''))) \<and>
   outbox (on_message 0 3 (Some (plain_message 3 ''draw'' ''r1'')) two_in_room) =
     outbox two_in_room @ [(1, Verbatim (plain_message 3 ''draw'' ''r1''))] \<and>
   addUserToRoom 1 (JStr ''r1'') (JStr ''bob'')
     (adopt 1 (room_message 2 ''join_room'' ''r1'' ''bob'') one_room) = Inr two_in_room \<and>
   1 \<in> ready one_room \<and>
   (\<exists>e rcpts. outbox two_in_room = outbox one_room @ map (\<lambda>c. (c, e)) rcpts \<and>
      is_user_joined e \<and> 1 \<in> set rcpts \<and> set rcpts \<subseteq> set (members two_in_room (JStr ''r1'')))"
proof -
  have open1: "1 \<in> ready one_room"
    by (simp add: one_room_ready)
  have out: "outbox (on_message 0 3 (Some (plain_message 3 ''draw'' ''r1'')) two_in_room) =
     outbox two_in_room @ [(1, Verbatim (plain_message 3 ''draw'' ''r1''))]"
    by (simp add: on_message_drawing handleDrawing_def two_in_room_fields two_in_room_ready
        broadcastToRoomExcept_outbox members_def set_currentRoom_def)
  from self_exclusion[where data = "plain_message 3 ''draw'' ''r1''" and ws = 0 and now = 3
        and s = two_in_room]
    self_exclusion[where ws = 1 and room = "JStr ''r1''" and uname = "JStr ''bob''"
        and s = "adopt 1 (room_message 2 ''join_room'' ''r1'' ''bob'') one_room"
        and s' = two_in_room]
    bob_join_call open1 out
  show ?thesis by simp
qed

subsection \<open>C5: create_room for a room that exists\<close>

text \<open>
  C5 as stated fails when the requester is in the room it names.  Connections 0 and 1
  are in r1 and connection 0 sends \<^verbatim>\<open>create_room\<close> for r1: the handler first runs
  \<^verbatim>\<open>leaveRoom\<close> on the session's current room, so r1 loses connection 0 and the username
  alice, and connection 1 is sent a \<^verbatim>\<open>user_left\<close> notice before the requester is told
  that r1 already exists.
\<close>

theorem create_existing_counterexample:
  "js_get (room_message 3 ''create_room'' ''r1'' ''alice'') ''roomId'' = JStr ''r1'' \<and>
   rooms two_in_room (JStr ''r1'') = Some [0, 1] \<and>
   users two_in_room (JStr ''r1'') = Some [JStr ''alice'', JStr ''bob''] \<and>
   rooms (on_message 0 3 (Some (room_message 3 ''create_room'' ''r1'' ''alice'')) two_in_room)
     (JStr ''r1'') = Some [1] \<and>
   users (on_message 0 3 (Some (room_message 3 ''create_room'' ''r1'' ''alice'')) two_in_room)
     (JStr ''r1'') = Some [JStr ''bob''] \<and>
   outbox (on_message 0 3 (Some (room_message 3 ''create_room'' ''r1'' ''alice'')) two_in_room) =
     outbox two_in_room @
     [(1, UserLeft [JStr ''bob''] (JStr ''alice'') (JStr ''r1'') 1
            [Subst (JStr ''alice''), Lit '' left the room'']),
      (0, RoomAlreadyExist (JStr ''r1'') [Subst (JStr ''r1''), Lit '' already existed...''])]"
  by (simp add: on_message_create leave_current_def two_in_room_fields two_in_room_ready
      leaveRoom_def set_delete_def Let_def broadcastToRoomExcept_def adopt_def
      handleCreateRoom_def send_def)

text \<open>
  C5, amended.  For every \<^verbatim>\<open>create_room\<close> message that carries a username and names a
  room id which exists in the registry and is not the current room of the requester's
  session (room ids and usernames being strings, or other values that convert to a
  string), that room's members, usernames and drawing history are unchanged.  The
  requester is sent the already-exists notice and nothing else; the only other messages
  are the \<^verbatim>\<open>user_left\<close> notices that leaving its previous room sends to members of
  that room.
\<close>

theorem create_existing_other_room:
  assumes ty: "js_get data ''type'' = JStr ''create_room''"
    and rid: "js_get data ''roomId'' = room" and un: "js_get data ''username'' = uname"
    and named: "truthy room" "truthy uname"
    and exists: "rooms s room \<noteq> None"
    and other: "currentRoom (sessions s ws) \<noteq> room"
    and strings: "\<not> tostring_throws room" "\<not> tostring_throws (currentRoom (sessions s ws))"
      "\<not> tostring_throws (usernameServer (sessions s ws))"
  shows "rooms (on_message ws now (Some data) s) room = rooms s room \<and>
         users (on_message ws now (Some data) s) room = users s room \<and>
         drawings (on_message ws now (Some data) s) room = drawings s room \<and>
         (\<exists>e rcpts. outbox (on_message ws now (Some data) s) =
            outbox s @ map (\<lambda>c. (c, e)) rcpts @
              [(ws, RoomAlreadyExist room [Subst room, Lit '' already existed...''])] \<and>
            is_user_left e \<and> ws \<notin> set rcpts \<and>
            set rcpts \<subseteq> set (members s (currentRoom (sessions s ws))))"
proof -
  obtain s1 where l: "leave_current ws s = Inr s1"
    using leave_current_completes[OF strings(2,3)] by blast
  have s1: "s1 = final (leave_current ws s)" by (simp add: l)
  have same: "rooms s1 room = rooms s room" "users s1 room = users s room"
    "drawings s1 room = drawings s room"
    using leave_current_other_room[of room s ws] other by (simp_all add: s1)
  obtain e rcpts where sent: "outbox s1 = outbox s @ map (\<lambda>c. (c, e)) rcpts"
    "is_user_left e" "ws \<notin> set rcpts" "set rcpts \<subseteq> set (members s (currentRoom (sessions s ws)))"
    using leave_current_sent[of ws s] unfolding s1 by blast
  let ?s2 = "adopt ws data s1"
  have sess: "sessions ?s2 ws = \<lparr>currentRoom = room, usernameServer = uname\<rparr>"
    using adopt_session[of data ws s1] named rid un by simp
  have h: "handleCreateRoom ws room uname ?s2 =
      Inr (send ws (RoomAlreadyExist room [Subst room, Lit '' already existed...'']) ?s2)"
    using handleCreateRoom_exists[of room uname ?s2 ws] named exists same(1) strings(1) by simp
  have res: "on_message ws now (Some data) s =
      send ws (RoomAlreadyExist room [Subst room, Lit '' already existed...'']) ?s2"
    by (simp add: on_message_create[OF ty] l sess h)
  show ?thesis
    unfolding res using same sent
    by (simp only: send_frame adopt_frame simp_thms)
       (intro exI[of _ e] exI[of _ rcpts], simp)
qed

text \<open>
  In the example connection 1, a member of r1, asks to create r2, which connection 2
  has created: r2 is untouched, connection 0 is told that bob left r1, and connection 1
  gets the notice.
\<close>

theorem create_existing_other_room_witness:
  "rooms two_rooms (JStr ''r2'') = Some [2] \<and>
   currentRoom (sessions two_rooms 1) = JStr ''r1'' \<and>
   rooms (on_message 1 4 (Some (room_message 4 ''create_room'' ''r2'' ''bob'')) two_rooms) (JStr ''r2'')
     = rooms two_rooms (JStr ''r2'') \<and>
   users (on_message 1 4 (Some (room_message 4 ''create_room'' ''r2'' ''bob'')) two_rooms) (JStr ''r2'')
     = users two_rooms (JStr ''r2'') \<and>
   drawings (on_message 1 4 (Some (room_message 4 ''create_room'' ''r2'' ''bob'')) two_rooms) (JStr ''r2'')
     = drawings two_rooms (JStr ''r2'') \<and>
   (\<exists>e rcpts. outbox (on_message 1 4 (Some (room_message 4 ''create_room'' ''r2'' ''bob'')) two_rooms) =
      outbox two_rooms @ map (\<lambda>c. (c, e)) rcpts @
        [(1, RoomAlreadyExist (JStr ''r2'') [Subst (JStr ''r2''), Lit '' already existed...''])] \<and>
      is_user_left e \<and> 1 \<notin> set rcpts \<and> set rcpts \<subseteq> set (members two_rooms (JStr ''r1''))) \<and>
   outbox (on_message 1 4 (Some (room_message 4 ''create_room'' ''r2'' ''bob'')) two_rooms) =
     outbox two_rooms @
       [(0, UserLeft [JStr ''alice''] (JStr ''bob'') (JStr ''r1'') 1
              [Subst (JStr ''bob''), Lit '' left the room'']),
        (1, RoomAlreadyExist (JStr ''r2'') [Subst (JStr ''r2''), Lit '' already existed...''])]"
proof -
  have out: "outbox (on_message 1 4 (Some (room_message 4 ''create_room'' ''r2'' ''bob'')) two_rooms) =
     outbox two_rooms @
       [(0, UserLeft [JStr ''alice''] (JStr ''bob'') (JStr ''r1'') 1
              [Subst (JStr ''bob''), Lit '' left the room'']),
        (1, RoomAlreadyExist (JStr ''r2'') [Subst (JStr ''r2''), Lit '' already existed...''])]"
    by (simp add: on_message_create leave_current_def two_rooms_fields two_rooms_ready
      leaveRoom_def set_delete_def Let_def broadcastToRoomExcept_def adopt_def
      handleCreateRoom_def send_def)
  from create_existing_other_room[of "room_message 4 ''create_room'' ''r2'' ''bob''"
      "JStr ''r2''" "JStr ''bob''" two_rooms 1 4] out
  show ?thesis by (simp add: two_rooms_fields)
qed

subsection \<open>C6: messages that cannot be parsed or whose handling raises\<close>




subsection \<open>C3: removal of an emptied room\<close>




subsection \<open>C10: the only member of a room joins it again\<close>




subsection \<open>C2: the history replayed to a joiner\<close>




subsection \<open>C1: membership in at most one room\<close>

text \<open>
  C1.  The claim is that after every handler a connection is a member of at most one
  room.  The \<^verbatim>\<open>create_room\<close> and \<^verbatim>\<open>join_room\<close> cases and the close handler keep it so: they
  leave the session's current room before anything else, and in every disciplined run a
  connection is in at most one room (\<open>single_room_when_disciplined\<close>).  The cases for
  relayed messages overwrite \<^verbatim>\<open>currentRoom\<close> with the room id of the message and leave
  nothing.  Evaluated: connection 0 creates r1, sends a chat that names the room lobby,
  and creates r2; the departure that precedes the creation is from lobby, which does
  not exist, and the connection ends as a member of both r1 and r2.
\<close>

theorem member_of_two_rooms:
  "run alice_strays init_server = Inr strayed \<and>
   members strayed (JStr ''r1'') = [0] \<and> members strayed (JStr ''r2'') = [0] \<and>
   currentRoom (sessions strayed 0) = JStr ''r2''"
  by (simp add: strayed_def alice_strays_def alice_creates_r1_def room_message_def
      plain_message_def handler_defs members_def)

end
